theory Spec2Isabelle
  imports Complex_Main
begin

section \<open>Tensors\<close>

text \<open>
  A tensor is its shape and its entries in row-major order, as a contiguous torch tensor
  is laid out. The operations of torch the repository calls are written below from their
  documented meaning: each gives the shape of its result and, for every index of the
  result, the entry of the argument it reads (\<open>tabulate\<close>). What torch raises is an
  \<open>error\<close> value.
\<close>

datatype error = IndexError | RuntimeError

record 'a tensor =
  shape :: "nat list"
  entries :: "'a list"

definition wf_tensor :: "'a tensor \<Rightarrow> bool" where
  "wf_tensor t = (length (entries t) = prod_list (shape t))"

definition bnd :: "error + 'a \<Rightarrow> ('a \<Rightarrow> error + 'b) \<Rightarrow> error + 'b" where
  "bnd m f = (case m of Inl e \<Rightarrow> Inl e | Inr x \<Rightarrow> f x)"

fun ravel :: "nat list \<Rightarrow> nat list \<Rightarrow> nat" where
  "ravel (s # ss) (i # is) = i * prod_list ss + ravel ss is"
| "ravel _ _ = 0"

fun unravel :: "nat list \<Rightarrow> nat \<Rightarrow> nat list" where
  "unravel [] k = []"
| "unravel (s # ss) k = (k div prod_list ss) # unravel ss (k mod prod_list ss)"

definition valid_index :: "nat list \<Rightarrow> nat list \<Rightarrow> bool" where
  "valid_index sh idx = list_all2 (<) idx sh"

definition entry :: "'a tensor \<Rightarrow> nat list \<Rightarrow> 'a" where
  "entry t idx = entries t ! ravel (shape t) idx"

definition tabulate :: "nat list \<Rightarrow> (nat list \<Rightarrow> 'a) \<Rightarrow> 'a tensor" where
  "tabulate sh f = \<lparr>shape = sh, entries = map (\<lambda>k. f (unravel sh k)) [0..<prod_list sh]\<rparr>"

text \<open>A Python dimension argument: negative values count from the last axis.\<close>

definition norm_dim :: "nat \<Rightarrow> int \<Rightarrow> error + nat" where
  "norm_dim r d =
     (if - int r \<le> d \<and> d < int r then Inr (nat (if d < 0 then d + int r else d))
      else Inl IndexError)"

text \<open>\<^verbatim>\<open>t.shape[0]\<close>: indexing the shape tuple.\<close>

definition shape0 :: "'a tensor \<Rightarrow> error + nat" where
  "shape0 t = (case shape t of [] \<Rightarrow> Inl IndexError | b # rest \<Rightarrow> Inr b)"

text \<open>\<^verbatim>\<open>t[i]\<close> for an index \<open>i \<ge> 0\<close>: the \<open>i\<close>-th slice along the first axis.\<close>

definition select0 :: "'a tensor \<Rightarrow> nat \<Rightarrow> error + 'a tensor" where
  "select0 t i =
     (case shape t of
        [] \<Rightarrow> Inl IndexError
      | b # rest \<Rightarrow>
          if i < b then Inr (tabulate rest (\<lambda>idx. entry t (i # idx))) else Inl IndexError)"

text \<open>\<^verbatim>\<open>torch.stack((x, y))\<close>: a new first axis of extent 2.\<close>

definition stack2 :: "'a tensor \<Rightarrow> 'a tensor \<Rightarrow> error + 'a tensor" where
  "stack2 x y =
     (if shape x = shape y
      then Inr (tabulate (2 # shape x)
                  (\<lambda>idx. if hd idx = 0 then entry x (tl idx) else entry y (tl idx)))
      else Inl RuntimeError)"

text \<open>\<^verbatim>\<open>t.unsqueeze(d)\<close> for \<open>d \<ge> 0\<close>: an axis of extent 1 before axis \<open>d\<close>.\<close>

definition unsqueeze :: "'a tensor \<Rightarrow> nat \<Rightarrow> error + 'a tensor" where
  "unsqueeze t d =
     (if d \<le> length (shape t)
      then Inr (t\<lparr>shape := take d (shape t) @ [1] @ drop d (shape t)\<rparr>)
      else Inl IndexError)"

text \<open>
  Broadcasting reads an axis of extent 1 at index 0 and ignores the leading axes the
  source does not have.
\<close>

definition bcast_index :: "nat list \<Rightarrow> nat list \<Rightarrow> nat list" where
  "bcast_index sh idx =
     map2 (\<lambda>s i. if s = 1 then 0 else i) sh (drop (length idx - length sh) idx)"

text \<open>
  \<^verbatim>\<open>t.expand(*sizes)\<close>: the sizes are aligned with the shape from the right; an axis
  keeps its extent or has extent 1.
\<close>

definition expandable :: "nat list \<Rightarrow> nat list \<Rightarrow> bool" where
  "expandable sh sizes =
     (length sh \<le> length sizes \<and>
      list_all2 (\<lambda>s n. s = n \<or> s = 1) sh (drop (length sizes - length sh) sizes))"

definition expand :: "'a tensor \<Rightarrow> nat list \<Rightarrow> error + 'a tensor" where
  "expand t sizes =
     (if expandable (shape t) sizes
      then Inr (tabulate sizes (\<lambda>idx. entry t (bcast_index (shape t) idx)))
      else Inl RuntimeError)"

text \<open>
  \<^verbatim>\<open>t.repeat(*reps)\<close>: the shape is padded with leading 1s to the number of repeats,
  and the tensor is tiled along every axis.
\<close>

definition repeat_t :: "'a tensor \<Rightarrow> nat list \<Rightarrow> error + 'a tensor" where
  "repeat_t t reps =
     (if length (shape t) \<le> length reps
      then (let padded = replicate (length reps - length (shape t)) 1 @ shape t
            in Inr (tabulate (map2 (*) padded reps)
                      (\<lambda>idx. entry t (drop (length reps - length (shape t))
                                      (map2 (\<lambda>s i. i mod s) padded idx)))))
      else Inl RuntimeError)"

text \<open>
  A Python slice \<^verbatim>\<open>lo:hi\<close> along axis \<open>d\<close> (\<open>hi = None\<close> for an open end): both
  bounds are clamped to the extent.
\<close>

definition slice_dim :: "'a tensor \<Rightarrow> nat \<Rightarrow> nat \<Rightarrow> nat option \<Rightarrow> error + 'a tensor" where
  "slice_dim t d lo hi =
     (if d < length (shape t)
      then (let n = shape t ! d;
                lo' = min lo n;
                hi' = (case hi of None \<Rightarrow> n | Some h \<Rightarrow> min h n)
            in Inr (tabulate ((shape t)[d := hi' - lo'])
                      (\<lambda>idx. entry t (idx[d := idx ! d + lo']))))
      else Inl IndexError)"

text \<open>
  \<^verbatim>\<open>torch.cat((x, y), dim=d)\<close>: the two shapes agree outside axis \<open>d\<close>. (torch also
  lets a tensor of shape \<open>(0,)\<close> be concatenated with anything; no call of the
  repository reaches that case without having raised before.)
\<close>

definition cat2 :: "'a tensor \<Rightarrow> 'a tensor \<Rightarrow> int \<Rightarrow> error + 'a tensor" where
  "cat2 x y axis =
     bnd (norm_dim (length (shape x)) axis) (\<lambda>d.
       if length (shape y) = length (shape x) \<and> (shape y)[d := shape x ! d] = shape x
       then Inr (tabulate ((shape x)[d := shape x ! d + shape y ! d])
                   (\<lambda>idx. if idx ! d < shape x ! d then entry x idx
                          else entry y (idx[d := idx ! d - shape x ! d])))
       else Inl RuntimeError)"

text \<open>\<^verbatim>\<open>t.reshape(*sh)\<close>: the same entries under another shape of as many entries.\<close>

definition reshape :: "'a tensor \<Rightarrow> nat list \<Rightarrow> error + 'a tensor" where
  "reshape t sh =
     (if prod_list sh = prod_list (shape t) then Inr (t\<lparr>shape := sh\<rparr>) else Inl RuntimeError)"

text \<open>An entrywise function of one tensor.\<close>

definition map_t :: "('a \<Rightarrow> 'b) \<Rightarrow> 'a tensor \<Rightarrow> 'b tensor" where
  "map_t f t = \<lparr>shape = shape t, entries = map f (entries t)\<rparr>"

text \<open>An entrywise operation of two tensors, with broadcasting.\<close>

fun bcast_shapes :: "nat list \<Rightarrow> nat list \<Rightarrow> nat list option" where
  "bcast_shapes [] [] = Some []"
| "bcast_shapes (x # xs) (y # ys) =
     (case bcast_shapes xs ys of
        None \<Rightarrow> None
      | Some zs \<Rightarrow> if x = y then Some (x # zs) else if x = 1 then Some (y # zs)
                   else if y = 1 then Some (x # zs) else None)"
| "bcast_shapes _ _ = None"

definition pad_shape :: "nat \<Rightarrow> nat list \<Rightarrow> nat list" where
  "pad_shape r sh = replicate (r - length sh) 1 @ sh"

definition binop :: "('a \<Rightarrow> 'a \<Rightarrow> 'a) \<Rightarrow> 'a tensor \<Rightarrow> 'a tensor \<Rightarrow> error + 'a tensor" where
  "binop f x y =
     (let r = max (length (shape x)) (length (shape y))
      in case bcast_shapes (pad_shape r (shape x)) (pad_shape r (shape y)) of
           None \<Rightarrow> Inl RuntimeError
         | Some sh \<Rightarrow>
             Inr (tabulate sh (\<lambda>idx. f (entry x (bcast_index (shape x) idx))
                                       (entry y (bcast_index (shape y) idx)))))"

text \<open>
  A reduction along one axis that keeps the axis with extent 1
  (\<^verbatim>\<open>dim=d, keepdims=True\<close>): \<open>g\<close> reduces the entries along the axis, in order.
\<close>

definition reduce_keep :: "('a list \<Rightarrow> 'a) \<Rightarrow> 'a tensor \<Rightarrow> int \<Rightarrow> error + 'a tensor" where
  "reduce_keep g t axis =
     bnd (norm_dim (length (shape t)) axis) (\<lambda>d.
       Inr (tabulate ((shape t)[d := 1])
              (\<lambda>idx. g (map (\<lambda>j. entry t (idx[d := j])) [0..<shape t ! d]))))"

text \<open>
  The arithmetic of the entries (Python floats, torch scalars) is a parameter: the
  results below hold for every choice of it, the IEEE operations included.
  \<open>f_lit\<close> is the value a numeric literal denotes, \<open>f_mean\<close> and \<open>f_var\<close> reduce the
  entries along an axis as \<^verbatim>\<open>mean\<close> and \<^verbatim>\<open>var\<close> do, \<open>f_nonzero\<close> is the truth value
  of a scalar.
\<close>

record 'a arith =
  f_add :: "'a \<Rightarrow> 'a \<Rightarrow> 'a"
  f_sub :: "'a \<Rightarrow> 'a \<Rightarrow> 'a"
  f_mul :: "'a \<Rightarrow> 'a \<Rightarrow> 'a"
  f_div :: "'a \<Rightarrow> 'a \<Rightarrow> 'a"
  f_sqrt :: "'a \<Rightarrow> 'a"
  f_mean :: "'a list \<Rightarrow> 'a"
  f_var :: "'a list \<Rightarrow> 'a"
  f_lit :: "rat \<Rightarrow> 'a"
  f_nonzero :: "'a \<Rightarrow> bool"

section \<open>Batch broadcaster\<close>

definition expand_first :: "'a arith \<Rightarrow> 'a tensor \<Rightarrow> 'a \<Rightarrow> error + 'a tensor" where
  "expand_first A feat scale =
     bnd (shape0 feat) (\<lambda>b.
     bnd (select0 feat 0) (\<lambda>feat_0.
     bnd (select0 feat (b div 2)) (\<lambda>feat_half.
     bnd (stack2 feat_0 feat_half) (\<lambda>stacked.
     bnd (unsqueeze stacked 1) (\<lambda>feat_style.
     bnd (if scale = f_lit A 1
          then expand feat_style (2 # b div 2 # tl (shape feat))
          else bnd (repeat_t feat_style [1, b div 2, 1, 1, 1]) (\<lambda>repeated.
               bnd (slice_dim repeated 1 0 (Some 1)) (\<lambda>first.
               bnd (slice_dim repeated 1 1 None) (\<lambda>others.
               cat2 first (map_t (f_mul A scale) others) 1))))
         (\<lambda>feat_style. reshape feat_style (shape feat)))))))"

definition concat_first :: "'a arith \<Rightarrow> 'a tensor \<Rightarrow> int \<Rightarrow> 'a \<Rightarrow> error + 'a tensor" where
  "concat_first A feat axis scale =
     bnd (expand_first A feat scale) (\<lambda>feat_style. cat2 feat feat_style axis)"

section \<open>Statistics normalizer\<close>

definition calc_mean_std :: "'a arith \<Rightarrow> 'a tensor \<Rightarrow> 'a \<Rightarrow> error + ('a tensor \<times> 'a tensor)" where
  "calc_mean_std A feat eps =
     bnd (reduce_keep (f_var A) feat (- 2)) (\<lambda>feat_var.
       let feat_std = map_t (f_sqrt A) (map_t (\<lambda>x. f_add A x eps) feat_var)
       in bnd (reduce_keep (f_mean A) feat (- 2)) (\<lambda>feat_mean.
            Inr (feat_mean, feat_std)))"

definition adain :: "'a arith \<Rightarrow> 'a tensor \<Rightarrow> error + 'a tensor" where
  "adain A feat =
     bnd (calc_mean_std A feat (f_lit A (1 / 100000))) (\<lambda>(feat_mean, feat_std).
     bnd (expand_first A feat_mean (f_lit A 1)) (\<lambda>feat_style_mean.
     bnd (expand_first A feat_std (f_lit A 1)) (\<lambda>feat_style_std.
     bnd (binop (f_sub A) feat feat_mean) (\<lambda>centred.
     bnd (binop (f_div A) centred feat_std) (\<lambda>feat1.
     bnd (binop (f_mul A) feat1 feat_style_std) (\<lambda>feat2.
     binop (f_add A) feat2 feat_style_mean))))))"

section \<open>Attention dispatch\<close>

text \<open>
  The two attention kernels belong to the host; a call of \<^verbatim>\<open>sdpa\<close> is modelled by the
  kernel call it ends in, with the arguments it passes.
\<close>

datatype 'a kernel_call =
    Optimized_attention "'a tensor" "'a tensor" "'a tensor" int
  | Optimized_attention_masked "'a tensor" "'a tensor" "'a tensor" int "'a tensor"

text \<open>
  \<^verbatim>\<open>bool(t)\<close> of a tensor: the truth value of its only entry; torch raises for a
  tensor with no entry and for one with more than one.
\<close>

definition tensor_bool :: "'a arith \<Rightarrow> 'a tensor \<Rightarrow> error + bool" where
  "tensor_bool A t =
     (if prod_list (shape t) = 1 then Inr (f_nonzero A (hd (entries t))) else Inl RuntimeError)"

text \<open>The truth value Python's \<^verbatim>\<open>if mask:\<close> tests: \<^verbatim>\<open>None\<close> is false.\<close>

definition truth_value :: "'a arith \<Rightarrow> 'a tensor option \<Rightarrow> error + bool" where
  "truth_value A attn_mask = (case attn_mask of None \<Rightarrow> Inr False | Some m \<Rightarrow> tensor_bool A m)"

definition sdpa ::
  "'a arith \<Rightarrow> 'a tensor \<Rightarrow> 'a tensor \<Rightarrow> 'a tensor \<Rightarrow> 'a tensor option \<Rightarrow> int \<Rightarrow> error + 'a kernel_call" where
  "sdpa A q k v attn_mask heads =
     bnd (truth_value A attn_mask) (\<lambda>c.
       case (c, attn_mask) of
         (True, Some m) \<Rightarrow> Inr (Optimized_attention_masked q k v heads m)
       | _ \<Rightarrow> Inr (Optimized_attention q k v heads))"

section \<open>Shared attention processor\<close>

record 'a style_aligned_args =
  share_attention :: bool
  adain_queries :: bool
  adain_keys :: bool
  adain_values :: bool
  shared_score_shift :: 'a
  only_self_level :: 'a

text \<open>The defaults of the dataclass, which \<^verbatim>\<open>StyleAlignedPatch.__init__\<close> takes.\<close>

definition default_args :: "'a arith \<Rightarrow> 'a style_aligned_args" where
  "default_args A =
     \<lparr>share_attention = True, adain_queries = True, adain_keys = True, adain_values = False,
      shared_score_shift = f_lit A 0, only_self_level = f_lit A 0\<rparr>"

record 'a shared_attention_processor =
  args :: "'a style_aligned_args"
  ref_img :: "'a tensor option"
  scale :: 'a

text \<open>\<^verbatim>\<open>SharedAttentionProcessor.__call__\<close>.\<close>

definition processor_call ::
  "'a arith \<Rightarrow> 'a shared_attention_processor \<Rightarrow> 'a tensor \<Rightarrow> 'a tensor \<Rightarrow> 'a tensor \<Rightarrow> 'x
     \<Rightarrow> error + ('a tensor \<times> 'a tensor \<times> 'a tensor)" where
  "processor_call A self q k v extra_options =
     bnd (if adain_queries (args self) then adain A q else Inr q) (\<lambda>q.
     bnd (if adain_keys (args self) then adain A k else Inr k) (\<lambda>k.
     bnd (if adain_values (args self) then adain A v else Inr v) (\<lambda>v.
     if share_attention (args self)
     then bnd (concat_first A k (- 2) (scale self)) (\<lambda>k.
          bnd (concat_first A v (- 2) (f_lit A 1)) (\<lambda>v.
          Inr (q, k, v)))
     else Inr (q, k, v))))"

section \<open>Layer-tree walker\<close>

text \<open>
  The module tree of the denoising network. A node is a module object: its address (the
  identity of the Python object), the outcome of the two \<^verbatim>\<open>isinstance\<close> tests of
  \<^verbatim>\<open>get_norm_layers\<close>, and the modules \<^verbatim>\<open>layer.children()\<close> yields, in order.
\<close>

datatype layer_kind = LayerNorm | GroupNorm | OtherLayer

datatype module = Module (address: nat) (kind: layer_kind) (children: "module list")

text \<open>
  The registry \<^verbatim>\<open>{"group": [], "layer": []}\<close>: two ordered lists of references to the
  recorded layers.
\<close>

record norm_layers =
  group_norms :: "nat list"
  layer_norms :: "nat list"

fun get_norm_layers :: "module \<Rightarrow> norm_layers \<Rightarrow> bool \<Rightarrow> bool \<Rightarrow> norm_layers" where
  "get_norm_layers (Module a k cs) reg share_layer_norm share_group_norm =
     (let nl = (if k = LayerNorm \<and> share_layer_norm
                then reg\<lparr>layer_norms := layer_norms reg @ [a]\<rparr>
                else reg)
      in if k = GroupNorm \<and> share_group_norm
         then nl\<lparr>group_norms := group_norms nl @ [a]\<rparr>
         else fold (\<lambda>child_layer acc.
                      get_norm_layers child_layer acc share_layer_norm share_group_norm) cs nl)"

text \<open>The addresses of the modules of a tree, the root first.\<close>

fun addresses :: "module \<Rightarrow> nat list" where
  "addresses (Module a k cs) = a # concat (map addresses cs)"

section \<open>Shared normalization wrapper\<close>

text \<open>
  The two attributes of a normalization layer the wrapper touches: its \<^verbatim>\<open>forward\<close>,
  and \<^verbatim>\<open>orig_forward\<close>, which a layer has only once it has been wrapped.
\<close>

record 'a norm_layer =
  forward :: "'a tensor \<Rightarrow> error + 'a tensor"
  orig_forward :: "('a tensor \<Rightarrow> error + 'a tensor) option"

text \<open>The closure \<^verbatim>\<open>forward_\<close> over the cached \<^verbatim>\<open>orig_forward\<close>.\<close>

definition forward_wrapped ::
  "'a arith \<Rightarrow> ('a tensor \<Rightarrow> error + 'a tensor) \<Rightarrow> 'a tensor \<Rightarrow> error + 'a tensor" where
  "forward_wrapped A orig hidden_states =
     bnd (norm_dim (length (shape hidden_states)) (- 2)) (\<lambda>d.
     let n = shape hidden_states ! d
     in bnd (concat_first A hidden_states (- 2) (f_lit A 1)) (\<lambda>widened.
        bnd (orig widened) (\<lambda>result.
        bnd (norm_dim (length (shape result)) (- 2)) (\<lambda>d'.
        slice_dim result d' 0 (Some n)))))"

definition register_norm_forward :: "'a arith \<Rightarrow> 'a norm_layer \<Rightarrow> 'a norm_layer" where
  "register_norm_forward A norm_layer =
     (let cached = (case orig_forward norm_layer of
                      None \<Rightarrow> forward norm_layer
                    | Some f \<Rightarrow> f)
      in norm_layer\<lparr>orig_forward := Some cached, forward := forward_wrapped A cached\<rparr>)"

section \<open>Patching a model\<close>

text \<open>
  The layers are objects shared by reference: the store gives, for the address of a
  module, its attributes. A model patcher of the host is modelled by the two things the
  repository uses of it: the root of the layer tree it holds (\<^verbatim>\<open>model.model\<close>) and the
  list of its attention patches.
\<close>

type_synonym 'a layer_store = "nat \<Rightarrow> 'a norm_layer"

record 'a model_patcher =
  model :: module
  attn1_patch :: "'a shared_attention_processor list"

text \<open>
  \<^verbatim>\<open>register_shared_norm\<close>: the layers collected from the tree of \<open>mp\<close> are wrapped in
  place, the group norms first. It returns the wrapped layers (their addresses); the line
  it prints is left out.
\<close>

definition register_shared_norm ::
  "'a arith \<Rightarrow> 'a layer_store \<Rightarrow> 'a model_patcher \<Rightarrow> bool \<Rightarrow> bool \<Rightarrow> 'a layer_store \<times> nat list" where
  "register_shared_norm A store mp share_group_norm share_layer_norm =
     (let norm_layers = get_norm_layers (model mp) \<lparr>group_norms = [], layer_norms = []\<rparr>
                          share_layer_norm share_group_norm;
          wrapped = group_norms norm_layers @ layer_norms norm_layers
      in (fold (\<lambda>a st. st(a := register_norm_forward A (st a))) wrapped store, wrapped))"

text \<open>
  \<^verbatim>\<open>set_model_attn1_patch\<close> of the host appends the patch to the attention patches of
  the patcher it is called on.
\<close>

definition set_model_attn1_patch ::
  "'a model_patcher \<Rightarrow> 'a shared_attention_processor \<Rightarrow> 'a model_patcher" where
  "set_model_attn1_patch m p = m\<lparr>attn1_patch := attn1_patch m @ [p]\<rparr>"

text \<open>
  \<^verbatim>\<open>StyleAlignedPatch.patch\<close>. The host's \<^verbatim>\<open>model.clone()\<close> makes a new patcher
  object; what it holds is a parameter (\<open>clone\<close>). The result is the store after the
  call, the caller's patcher \<open>model_arg\<close> as the call leaves it, and the patcher returned.
\<close>

definition patch ::
  "'a arith \<Rightarrow> ('a model_patcher \<Rightarrow> 'a model_patcher) \<Rightarrow> 'a style_aligned_args \<Rightarrow> 'a layer_store
     \<Rightarrow> 'a model_patcher \<Rightarrow> string \<Rightarrow> 'a \<Rightarrow> 'a tensor option
     \<Rightarrow> 'a layer_store \<times> 'a model_patcher \<times> 'a model_patcher" where
  "patch A clone self_args store model_arg share_norm scale_arg style_image =
     (let m = clone model_arg;
          share_group_norm = (share_norm \<in> set [''group'', ''both'']);
          share_layer_norm = (share_norm \<in> set [''layer'', ''both'']);
          store' = fst (register_shared_norm A store model_arg share_group_norm share_layer_norm);
          m = set_model_attn1_patch m
                \<lparr>args = self_args, ref_img = style_image, scale = scale_arg\<rparr>
      in (store', model_arg, m))"

section \<open>Reference descriptions\<close>

text \<open>
  What the specification says the broadcaster returns, written entry by entry: the batch
  slot \<open>i\<close> of the result is the slot \<open>0\<close> of the argument in the first half of the
  batch and the slot \<open>b div 2\<close> in the second half.
\<close>

definition style_index :: "nat \<Rightarrow> nat \<Rightarrow> nat" where
  "style_index b i = (if i < b div 2 then 0 else b div 2)"

definition broadcast_style :: "'a tensor \<Rightarrow> 'a tensor" where
  "broadcast_style t =
     tabulate (shape t) (\<lambda>idx. entry t (style_index (hd (shape t)) (hd idx) # tl idx))"

text \<open>
  What the repeat branch of \<open>expand_first\<close> returns for a tensor of four axes, entry by
  entry: the first slot of each half of the batch holds its style element as it is, every
  other slot holds it multiplied by the scale.
\<close>

definition damped_style :: "'a arith \<Rightarrow> 'a tensor \<Rightarrow> 'a \<Rightarrow> 'a tensor" where
  "damped_style A t s =
     tabulate (shape t)
       (\<lambda>idx. if hd idx = 0 \<or> hd idx = hd (shape t) div 2
              then entry t (hd idx # tl idx)
              else f_mul A s (entry t (style_index (hd (shape t)) (hd idx) # tl idx)))"

text \<open>
  What the specification says of the statistics: the entries of \<open>t\<close> along axis \<open>d\<close>
  through an index, the mean and the standard deviation \<open>sqrt (var + 1e-5)\<close> along the
  second-to-last axis, and the restyled tensor \<open>(t - mean) / std * style_std + style_mean\<close>
  entry by entry, the style statistics being those at the style element of the half-batch.
\<close>

definition along_axis :: "'a tensor \<Rightarrow> nat \<Rightarrow> nat list \<Rightarrow> 'a list" where
  "along_axis t d idx = map (\<lambda>j. entry t (idx[d := j])) [0..<shape t ! d]"

definition mean_at :: "'a arith \<Rightarrow> 'a tensor \<Rightarrow> nat list \<Rightarrow> 'a" where
  "mean_at A t idx = f_mean A (along_axis t (length (shape t) - 2) idx)"

definition std_at :: "'a arith \<Rightarrow> 'a tensor \<Rightarrow> nat list \<Rightarrow> 'a" where
  "std_at A t idx =
     f_sqrt A (f_add A (f_var A (along_axis t (length (shape t) - 2) idx)) (f_lit A (1 / 100000)))"

definition adain_ref :: "'a arith \<Rightarrow> 'a tensor \<Rightarrow> 'a tensor" where
  "adain_ref A t =
     tabulate (shape t)
       (\<lambda>idx. let style = idx[0 := style_index (hd (shape t)) (idx ! 0)]
              in f_add A
                   (f_mul A (f_div A (f_sub A (entry t idx) (mean_at A t idx)) (std_at A t idx))
                      (std_at A t style))
                   (mean_at A t style))"

text \<open>
  What the specification says the walker records, for the whole tree: a group norm met
  while group sharing is on is recorded and nothing below it is visited; every other node
  is passed through to its children, in order, a layer norm being recorded on the way when
  layer sharing is on.
\<close>

fun recorded_groups :: "bool \<Rightarrow> module \<Rightarrow> nat list" where
  "recorded_groups sg (Module a k cs) =
     (if k = GroupNorm \<and> sg then [a] else concat (map (recorded_groups sg) cs))"

fun recorded_layers :: "bool \<Rightarrow> bool \<Rightarrow> module \<Rightarrow> nat list" where
  "recorded_layers sl sg (Module a k cs) =
     (if k = LayerNorm \<and> sl then [a] else [])
     @ (if k = GroupNorm \<and> sg then [] else concat (map (recorded_layers sl sg) cs))"

text \<open>The arithmetic of the reals, for concrete instances.\<close>

definition real_arith :: "real arith" where
  "real_arith =
     \<lparr>f_add = (+), f_sub = (-), f_mul = (*), f_div = (/), f_sqrt = sqrt,
      f_mean = (\<lambda>xs. sum_list xs / real (length xs)),
      f_var = (\<lambda>xs. sum_list (map (\<lambda>x. (x - sum_list xs / real (length xs))\<^sup>2) xs)
                     / (real (length xs) - 1)),
      f_lit = of_rat, f_nonzero = (\<lambda>x. x \<noteq> 0)\<rparr>"

section \<open>Index arithmetic\<close>

lemma valid_index_Nil [simp]: "valid_index [] idx = (idx = [])"
  by (simp add: valid_index_def)

lemma valid_index_Cons:
  "valid_index (s # ss) idx = (\<exists>i is. idx = i # is \<and> i < s \<and> valid_index ss is)"
  by (auto simp: valid_index_def list_all2_Cons2)

lemma valid_index_Cons_Cons [simp]:
  "valid_index (s # ss) (i # is) = (i < s \<and> valid_index ss is)"
  by (simp add: valid_index_def)

lemma valid_index_length: "valid_index sh idx \<Longrightarrow> length idx = length sh"
  by (simp add: valid_index_def list_all2_lengthD)

lemma valid_index_nth: "valid_index sh idx \<Longrightarrow> j < length sh \<Longrightarrow> idx ! j < sh ! j"
  by (simp add: valid_index_def list_all2_nthD2)

lemma valid_index_iff:
  "valid_index sh idx = (length idx = length sh \<and> (\<forall>j<length sh. idx ! j < sh ! j))"
  by (auto simp: valid_index_def list_all2_conv_all_nth)

lemma ravel_less: "valid_index sh idx \<Longrightarrow> ravel sh idx < prod_list sh"
proof (induction sh arbitrary: idx)
  case Nil
  then show ?case by simp
next
  case (Cons s ss)
  then obtain i "is" where idx: "idx = i # is" "i < s" "valid_index ss is"
    by (auto simp: valid_index_Cons)
  have "ravel ss is < prod_list ss" using Cons.IH idx by simp
  then have "i * prod_list ss + ravel ss is < Suc i * prod_list ss" by simp
  also have "\<dots> \<le> s * prod_list ss" using idx(2) by (simp add: Suc_leI mult_le_mono1 del: mult_Suc)
  finally show ?case using idx by simp
qed

lemma unravel_ravel: "valid_index sh idx \<Longrightarrow> unravel sh (ravel sh idx) = idx"
proof (induction sh arbitrary: idx)
  case Nil
  then show ?case by simp
next
  case (Cons s ss)
  then obtain i "is" where idx: "idx = i # is" "i < s" "valid_index ss is"
    by (auto simp: valid_index_Cons)
  have lt: "ravel ss is < prod_list ss" using idx by (simp add: ravel_less)
  then show ?case using idx Cons.IH by simp
qed

lemma valid_unravel: "k < prod_list sh \<Longrightarrow> valid_index sh (unravel sh k)"
proof (induction sh arbitrary: k)
  case Nil
  then show ?case by simp
next
  case (Cons s ss)
  have pos: "0 < prod_list ss" using Cons.prems by (cases "prod_list ss = 0") auto
  have "k div prod_list ss < s" using Cons.prems pos
    by (simp add: less_mult_imp_div_less mult.commute)
  then show ?case using Cons.IH pos by simp
qed

lemma ravel_unravel: "k < prod_list sh \<Longrightarrow> ravel sh (unravel sh k) = k"
proof (induction sh arbitrary: k)
  case Nil
  then show ?case by simp
next
  case (Cons s ss)
  have pos: "0 < prod_list ss" using Cons.prems by (cases "prod_list ss = 0") auto
  then show ?case using Cons.IH by simp
qed

lemma shape_tabulate [simp]: "shape (tabulate sh f) = sh"
  by (simp add: tabulate_def)

lemma wf_tabulate [simp]: "wf_tensor (tabulate sh f)"
  by (simp add: tabulate_def wf_tensor_def)

lemma entry_tabulate: "valid_index sh idx \<Longrightarrow> entry (tabulate sh f) idx = f idx"
  by (simp add: tabulate_def entry_def ravel_less unravel_ravel)

lemma tensor_eqI:
  assumes "wf_tensor x" "wf_tensor y" "shape x = shape y"
    and "\<And>idx. valid_index (shape x) idx \<Longrightarrow> entry x idx = entry y idx"
  shows "x = y"
proof -
  have len: "length (entries x) = length (entries y)"
    using assms(1-3) by (simp add: wf_tensor_def)
  have "entries x ! k = entries y ! k" if "k < length (entries x)" for k
  proof -
    have k: "k < prod_list (shape x)" using that assms(1) by (simp add: wf_tensor_def)
    have "entry x (unravel (shape x) k) = entry y (unravel (shape x) k)"
      using assms(4) valid_unravel [OF k] by simp
    then show ?thesis using assms(3) k by (simp add: entry_def ravel_unravel)
  qed
  then have "entries x = entries y" using len by (simp add: nth_equalityI)
  then show ?thesis using assms(3) by simp
qed

lemma bnd_Inr [simp]: "bnd (Inr x) f = f x"
  by (simp add: bnd_def)

lemma bnd_Inl [simp]: "bnd (Inl e) f = Inl e"
  by (simp add: bnd_def)

lemma tabulate_cong:
  "(\<And>idx. valid_index sh idx \<Longrightarrow> f idx = g idx) \<Longrightarrow> tabulate sh f = tabulate sh g"
  by (simp add: tabulate_def valid_unravel)

lemma entries_tabulate_nth:
  "k < prod_list sh \<Longrightarrow> entries (tabulate sh f) ! k = f (unravel sh k)"
  by (simp add: tabulate_def)

lemma bcast_same:
  "valid_index sh idx \<Longrightarrow> map2 (\<lambda>s i. if s = 1 then 0 else i) sh idx = idx"
proof (induction sh arbitrary: idx)
  case Nil
  then show ?case by simp
next
  case (Cons s ss)
  then show ?case by (auto simp: valid_index_Cons)
qed

lemma bcast_index_same: "valid_index sh idx \<Longrightarrow> bcast_index sh idx = idx"
  unfolding bcast_index_def using bcast_same [of sh idx] valid_index_length [of sh idx] by simp

lemma bcast_index_Cons:
  "length idx = length sh \<Longrightarrow>
     bcast_index (s # sh) (i # idx) = (if s = 1 then 0 else i) # bcast_index sh idx"
  by (simp add: bcast_index_def)

lemma unravel_split:
  assumes "i < p * q" "valid_index rest is"
  shows "unravel (p # q # rest) (ravel (p * q # rest) (i # is)) = (i div q) # (i mod q) # is"
proof -
  have q: "0 < q" using assms(1) by (cases q) auto
  have "i div q < p" using assms(1) q by (simp add: less_mult_imp_div_less)
  then have v: "valid_index (p # q # rest) ((i div q) # (i mod q) # is)"
    using q assms(2) by simp
  have "i div q * (q * prod_list rest) + i mod q * prod_list rest = i * prod_list rest"
    by (metis add_mult_distrib div_mult_mod_eq mult.assoc)
  then have eq: "ravel (p * q # rest) (i # is) = ravel (p # q # rest) ((i div q) # (i mod q) # is)"
    by simp
  show ?thesis unfolding eq by (rule unravel_ravel [OF v])
qed

lemma select0_Inr:
  "shape t = b # rest \<Longrightarrow> i < b \<Longrightarrow>
     select0 t i = Inr (tabulate rest (\<lambda>idx. entry t (i # idx)))"
  by (simp add: select0_def)

lemma expand_first_unit:
  assumes sh: "shape feat = b # rest" and ev: "even b" and pos: "0 < b"
  shows "expand_first A feat (f_lit A 1) = Inr (broadcast_style feat)"
proof -
  define h where "h = b div 2"
  have b: "b = 2 * h" using ev by (auto simp: h_def)
  have hpos: "0 < h" using pos b by simp
  define S where "S = tabulate (2 # rest)
        (\<lambda>idx. if hd idx = 0 then entry (tabulate rest (\<lambda>idx. entry feat (0 # idx))) (tl idx)
               else entry (tabulate rest (\<lambda>idx. entry feat (h # idx))) (tl idx))"
  define U where "U = S\<lparr>shape := 2 # 1 # rest\<rparr>"
  define E where "E = tabulate (2 # h # rest) (\<lambda>idx. entry U (bcast_index (2 # 1 # rest) idx))"
  have ex: "expandable (2 # 1 # rest) (2 # h # rest)"
    by (simp add: expandable_def list_all2_same)
  have hb: "h < b" using hpos b by simp
  have s0: "select0 feat 0 = Inr (tabulate rest (\<lambda>idx. entry feat (0 # idx)))"
    using sh pos by (rule select0_Inr)
  have sh': "select0 feat h = Inr (tabulate rest (\<lambda>idx. entry feat (h # idx)))"
    using sh hb by (rule select0_Inr)
  have st: "stack2 (tabulate rest (\<lambda>idx. entry feat (0 # idx)))
              (tabulate rest (\<lambda>idx. entry feat (h # idx))) = Inr S"
    by (simp add: stack2_def S_def)
  have un: "unsqueeze S (Suc 0) = Inr U"
    by (simp add: unsqueeze_def U_def S_def)
  have shU: "shape U = 2 # 1 # rest" by (simp add: U_def)
  have exp: "expand U (2 # h # rest) = Inr E"
    using ex by (simp add: expand_def shU E_def)
  have shE: "shape E = 2 # h # rest" by (simp add: E_def)
  have re: "reshape E (b # rest) = Inr (E\<lparr>shape := b # rest\<rparr>)"
    by (simp add: reshape_def shE b)
  have "expand_first A feat (f_lit A 1) = Inr (E\<lparr>shape := b # rest\<rparr>)"
    unfolding expand_first_def
    by (simp add: shape0_def sh s0 h_def [symmetric] sh' st un exp re)
  moreover have "E\<lparr>shape := b # rest\<rparr> = broadcast_style feat"
  proof (rule tensor_eqI)
    show "wf_tensor (E\<lparr>shape := b # rest\<rparr>)"
      by (simp add: wf_tensor_def E_def tabulate_def b)
    show "wf_tensor (broadcast_style feat)" by (simp add: broadcast_style_def)
    show "shape (E\<lparr>shape := b # rest\<rparr>) = shape (broadcast_style feat)"
      by (simp add: broadcast_style_def sh)
    fix idx assume "valid_index (shape (E\<lparr>shape := b # rest\<rparr>)) idx"
    then obtain i "is" where idx: "idx = i # is" "i < b" "valid_index rest is"
      by (auto simp: valid_index_Cons)
    have i2: "i < 2 * h" using idx b by simp
    have g: "i div h < 2" using i2 hpos by (simp add: less_mult_imp_div_less)
    have lt: "ravel (b # rest) idx < prod_list (2 # h # rest)"
      using ravel_less [of "b # rest" idx] idx b by simp
    have "entry (E\<lparr>shape := b # rest\<rparr>) idx = entries E ! ravel (2 * h # rest) (i # is)"
      by (simp add: entry_def idx b)
    also have "\<dots> = entry U (bcast_index (2 # 1 # rest) (unravel (2 # h # rest) (ravel (2 * h # rest) (i # is))))"
      unfolding E_def using lt idx b by (subst entries_tabulate_nth) simp_all
    also have "\<dots> = entry U (bcast_index (2 # 1 # rest) ((i div h) # (i mod h) # is))"
      using unravel_split [OF i2 idx(3)] by simp
    also have "\<dots> = entry U ((i div h) # 0 # is)"
      using idx(3) by (simp add: bcast_index_Cons valid_index_length bcast_index_same)
    also have "\<dots> = entry S ((i div h) # is)"
      by (simp add: U_def entry_def S_def)
    also have "\<dots> = entry feat ((if i div h = 0 then 0 else h) # is)"
      using g idx(3) by (simp add: S_def entry_tabulate)
    also have "\<dots> = entry feat (style_index b i # is)"
      using hpos by (simp add: style_index_def h_def [symmetric] div_eq_0_iff)
    finally show "entry (E\<lparr>shape := b # rest\<rparr>) idx = entry (broadcast_style feat) idx"
      using idx by (simp add: broadcast_style_def sh entry_tabulate)
  qed
  ultimately show ?thesis by simp
qed

lemmas eval_defs =
  expand_first_def concat_first_def shape0_def select0_def stack2_def unsqueeze_def
  repeat_t_def expand_def expandable_def bcast_index_def slice_dim_def cat2_def norm_dim_def
  map_t_def reshape_def tabulate_def entry_def real_arith_def bnd_def Let_def upt_conv_Cons
  numeral_2_eq_2 [symmetric]

lemma entry_broadcast_style:
  "shape t = b # rest \<Longrightarrow> i < b \<Longrightarrow> valid_index rest is \<Longrightarrow>
     entry (broadcast_style t) (i # is) = entry t (style_index b i # is)"
  by (simp add: broadcast_style_def entry_tabulate)

lemma select0_broadcast_style:
  assumes "shape t = b # rest" "i < b" "0 < b"
  shows "select0 (broadcast_style t) i = select0 t (style_index b i)"
proof -
  have s: "style_index b i < b" using assms(3) by (simp add: style_index_def)
  have "select0 (broadcast_style t) i
          = Inr (tabulate rest (\<lambda>idx. entry (broadcast_style t) (i # idx)))"
    using assms by (simp add: select0_Inr broadcast_style_def)
  also have "\<dots> = Inr (tabulate rest (\<lambda>idx. entry t (style_index b i # idx)))"
    using assms by (simp add: entry_broadcast_style cong: tabulate_cong)
  also have "\<dots> = select0 t (style_index b i)"
    using assms(1) s by (simp add: select0_Inr)
  finally show ?thesis .
qed

text \<open>An empty batch has no style element: the broadcaster raises at \<^verbatim>\<open>feat[0]\<close>.\<close>

lemma expand_first_empty_batch:
  "shape t = 0 # rest \<Longrightarrow> expand_first A t s = Inl IndexError"
  by (simp add: expand_first_def shape0_def select0_def)

lemma valid_index_update:
  "valid_index sh idx \<Longrightarrow> d < length sh \<Longrightarrow> v < m \<Longrightarrow> valid_index (sh[d := m]) (idx[d := v])"
  by (auto simp: valid_index_iff nth_list_update)

lemma valid_index_widen:
  "valid_index sh idx \<Longrightarrow> d < length sh \<Longrightarrow> sh ! d \<le> m \<Longrightarrow> valid_index (sh[d := m]) idx"
  using valid_index_update [of sh idx d "idx ! d" m]
  by (auto simp: valid_index_iff nth_list_update)

lemma norm_dim_less: "norm_dim r a = Inr d \<Longrightarrow> d < r"
  by (auto simp: norm_dim_def split: if_splits)

lemma cat2_same_shape:
  assumes "shape y = shape x" "norm_dim (length (shape x)) axis = Inr d"
  shows "cat2 x y axis = Inr (tabulate ((shape x)[d := shape x ! d + shape x ! d])
                   (\<lambda>idx. if idx ! d < shape x ! d then entry x idx
                          else entry y (idx[d := idx ! d - shape x ! d])))"
  using assms by (simp add: cat2_def)

lemma slice_of_tabulate:
  assumes "d < length sh"
  shows "slice_dim (tabulate sh f) d lo hi =
           Inr (tabulate (sh[d := (case hi of None \<Rightarrow> sh ! d | Some h \<Rightarrow> min h (sh ! d)) - min lo (sh ! d)])
                  (\<lambda>idx. entry (tabulate sh f) (idx[d := idx ! d + min lo (sh ! d)])))"
  using assms by (simp add: slice_dim_def Let_def)

lemma concat_first_unit:
  assumes sh: "shape t = b # rest" and ev: "even b" and pos: "0 < b"
    and ax: "norm_dim (length (shape t)) axis = Inr d"
  shows "concat_first A t axis (f_lit A 1) =
           Inr (tabulate ((shape t)[d := 2 * (shape t ! d)])
                  (\<lambda>idx. if idx ! d < shape t ! d then entry t idx
                         else entry (broadcast_style t) (idx[d := idx ! d - shape t ! d])))"
proof -
  have "shape (broadcast_style t) = shape t" by (simp add: broadcast_style_def)
  then show ?thesis
    using expand_first_unit [OF sh ev pos, of A] ax
    by (simp add: concat_first_def cat2_same_shape mult_2)
qed

lemma entry_map_t:
  "wf_tensor x \<Longrightarrow> valid_index (shape x) idx \<Longrightarrow> entry (map_t f x) idx = f (entry x idx)"
  using ravel_less [of "shape x" idx] by (simp add: map_t_def entry_def wf_tensor_def)

lemma shape_map_t [simp]: "shape (map_t f x) = shape x"
  by (simp add: map_t_def)

lemma wf_map_t [simp]: "wf_tensor (map_t f x) = wf_tensor x"
  by (simp add: map_t_def wf_tensor_def)

lemma expand_first_scaled:
  assumes sh: "shape feat = [b, c, n, d]" and ev: "even b" and pos: "0 < b"
    and sc: "s \<noteq> f_lit A 1"
  shows "expand_first A feat s = Inr (damped_style A feat s)"
proof -
  define h where "h = b div 2"
  define rest where "rest = [c, n, d]"
  have b: "b = 2 * h" using ev by (auto simp: h_def)
  have hpos: "0 < h" using pos b by simp
  have hb: "h < b" using hpos b by simp
  have sh': "shape feat = b # rest" by (simp add: sh rest_def)
  define S where "S = tabulate (2 # rest)
        (\<lambda>idx. if hd idx = 0 then entry (tabulate rest (\<lambda>idx. entry feat (0 # idx))) (tl idx)
               else entry (tabulate rest (\<lambda>idx. entry feat (h # idx))) (tl idx))"
  define U where "U = S\<lparr>shape := 2 # 1 # rest\<rparr>"
  define R where "R = tabulate [2, h, c, n, d]
        (\<lambda>idx. entry U (map2 (\<lambda>s i. i mod s) [2, 1, c, n, d] idx))"
  define F where "F = tabulate [2, 1, c, n, d] (\<lambda>idx. entry R (idx[1 := idx ! 1 + 0]))"
  define Oth where "Oth = tabulate [2, h - 1, c, n, d] (\<lambda>idx. entry R (idx[1 := idx ! 1 + 1]))"
  define C where "C = tabulate [2, h, c, n, d]
        (\<lambda>idx. if idx ! 1 < 1 then entry F idx
               else entry (map_t (f_mul A s) Oth) (idx[1 := idx ! 1 - 1]))"
  have s0: "select0 feat 0 = Inr (tabulate rest (\<lambda>idx. entry feat (0 # idx)))"
    using sh' pos by (rule select0_Inr)
  have s1: "select0 feat h = Inr (tabulate rest (\<lambda>idx. entry feat (h # idx)))"
    using sh' hb by (rule select0_Inr)
  have st: "stack2 (tabulate rest (\<lambda>idx. entry feat (0 # idx)))
              (tabulate rest (\<lambda>idx. entry feat (h # idx))) = Inr S"
    by (simp add: stack2_def S_def)
  have un: "unsqueeze S (Suc 0) = Inr U"
    by (simp add: unsqueeze_def U_def S_def)
  have shU: "shape U = [2, 1, c, n, d]" by (simp add: U_def rest_def)
  have rp: "repeat_t U [Suc 0, h, Suc 0, Suc 0, Suc 0] = Inr R"
    by (simp add: repeat_t_def shU R_def)
  have f: "slice_dim R (Suc 0) 0 (Some (Suc 0)) = Inr F"
    using hpos by (simp add: slice_dim_def R_def F_def Suc_leI)
  have o: "slice_dim R (Suc 0) (Suc 0) None = Inr Oth"
    using hpos by (simp add: slice_dim_def R_def Oth_def Suc_leI)
  have ct: "cat2 F (map_t (f_mul A s) Oth) 1 = Inr C"
    using hpos by (simp add: cat2_def norm_dim_def F_def Oth_def C_def cong: if_cong)
  have re: "reshape C (b # rest) = Inr (C\<lparr>shape := b # rest\<rparr>)"
    by (simp add: reshape_def C_def b rest_def)
  have "expand_first A feat s = Inr (C\<lparr>shape := b # rest\<rparr>)"
    unfolding expand_first_def
    using sc by (simp add: shape0_def sh' s0 h_def [symmetric] s1 st un rp f o ct re)
  moreover have "C\<lparr>shape := b # rest\<rparr> = damped_style A feat s"
  proof (rule tensor_eqI)
    show "wf_tensor (C\<lparr>shape := b # rest\<rparr>)"
      by (simp add: wf_tensor_def C_def tabulate_def b rest_def)
    show "wf_tensor (damped_style A feat s)" by (simp add: damped_style_def)
    show "shape (C\<lparr>shape := b # rest\<rparr>) = shape (damped_style A feat s)"
      by (simp add: damped_style_def sh')
    fix idx assume "valid_index (shape (C\<lparr>shape := b # rest\<rparr>)) idx"
    then obtain i "is" where idx: "idx = i # is" "i < b" "valid_index rest is"
      by (auto simp: valid_index_Cons)
    obtain j k l where is': "is = [j, k, l]" "j < c" "k < n" "l < d"
      using idx(3) by (auto simp: rest_def valid_index_Cons)
    have i2: "i < 2 * h" using idx b by simp
    have g: "i div h < 2" using i2 hpos by (simp add: less_mult_imp_div_less)
    have m: "i mod h < h" using hpos by simp
    have lt: "ravel (b # rest) idx < prod_list (2 # h # rest)"
      using ravel_less [of "b # rest" idx] idx b by simp
    have U: "entry U [i div h, 0, j, k, l] = entry feat ((if i div h = 0 then 0 else h) # is)"
    proof -
      have "entry U [i div h, 0, j, k, l] = entry S ((i div h) # is)"
        by (simp add: U_def entry_def S_def is' rest_def)
      also have "\<dots> = entry feat ((if i div h = 0 then 0 else h) # is)"
        using g idx(3) by (simp add: S_def entry_tabulate)
      finally show ?thesis .
    qed
    have Rv: "entry R [i div h, m', j, k, l] = entry feat ((if i div h = 0 then 0 else h) # is)"
      if "m' < h" for m'
      using that g is' U by (simp add: R_def entry_tabulate)
    have "entry (C\<lparr>shape := b # rest\<rparr>) idx = entries C ! ravel (2 * h # rest) (i # is)"
      by (simp add: entry_def idx b)
    also have "\<dots> = (if [i div h, i mod h, j, k, l] ! 1 < 1 then entry F [i div h, i mod h, j, k, l]
               else entry (map_t (f_mul A s) Oth) ([i div h, i mod h, j, k, l][1 := [i div h, i mod h, j, k, l] ! 1 - 1]))"
      unfolding C_def using lt idx b unravel_split [OF i2 idx(3)]
      by (subst entries_tabulate_nth) (simp_all add: rest_def is')
    also have "\<dots> = (if i mod h = 0 then entry feat ((if i div h = 0 then 0 else h) # is)
               else f_mul A s (entry feat ((if i div h = 0 then 0 else h) # is)))"
    proof (cases "i mod h = 0")
      case True
      have "entry F [i div h, 0, j, k, l] = entry R [i div h, 0, j, k, l]"
        using g is' by (simp add: F_def entry_tabulate)
      then show ?thesis using True Rv [OF hpos] by simp
    next
      case False
      then have m1: "i mod h - 1 < h - 1" using m by simp
      have v: "valid_index (shape Oth) [i div h, i mod h - 1, j, k, l]"
        using g m1 is' by (simp add: Oth_def)
      have "entry (map_t (f_mul A s) Oth) [i div h, i mod h - 1, j, k, l]
              = f_mul A s (entry Oth [i div h, i mod h - 1, j, k, l])"
        using v by (simp add: entry_map_t Oth_def)
      also have "entry Oth [i div h, i mod h - 1, j, k, l] = entry R [i div h, i mod h, j, k, l]"
        using v False by (simp add: Oth_def entry_tabulate)
      finally show ?thesis using False Rv [OF m] by simp
    qed
    also have "\<dots> = (if i = 0 \<or> i = h then entry feat (i # is)
               else f_mul A s (entry feat (style_index b i # is)))"
    proof -
      have a: "(i mod h = 0) = (i = 0 \<or> i = h)"
      proof
        assume "i mod h = 0"
        then obtain q where q: "i = h * q" by (auto simp: mod_eq_0_iff_dvd)
        then have "q < 2" using i2 hpos by simp
        then have "q = 0 \<or> q = 1" by auto
        then show "i = 0 \<or> i = h" using q by auto
      qed auto
      have c: "(if i div h = 0 then 0 else h) = style_index b i"
        using hpos by (simp add: style_index_def h_def [symmetric] div_eq_0_iff)
      have "i = 0 \<or> i = h \<Longrightarrow> style_index b i = i"
        using hpos by (auto simp: style_index_def h_def [symmetric])
      then show ?thesis using a c by auto
    qed
    finally show "entry (C\<lparr>shape := b # rest\<rparr>) idx = entry (damped_style A feat s) idx"
      using idx by (simp add: damped_style_def sh' entry_tabulate h_def)
  qed
  ultimately show ?thesis by simp
qed


lemma map_t_tabulate: "map_t f (tabulate sh g) = tabulate sh (\<lambda>idx. f (g idx))"
  by (simp add: map_t_def tabulate_def)

lemma select0_damped_style:
  assumes sh: "shape t = b # rest" and i: "i < b"
  shows "select0 (damped_style A t s) i =
           Inr (tabulate rest (\<lambda>idx. if i = 0 \<or> i = b div 2 then entry t (i # idx)
                                      else f_mul A s (entry t (style_index b i # idx))))"
proof -
  have "select0 (damped_style A t s) i
          = Inr (tabulate rest (\<lambda>idx. entry (damped_style A t s) (i # idx)))"
    using assms by (simp add: select0_Inr damped_style_def)
  also have "\<dots> = Inr (tabulate rest (\<lambda>idx. if i = 0 \<or> i = b div 2 then entry t (i # idx)
                                      else f_mul A s (entry t (style_index b i # idx))))"
    using assms by (simp add: damped_style_def entry_tabulate cong: tabulate_cong if_cong)
  finally show ?thesis .
qed

lemma norm_dim_minus2: "2 \<le> r \<Longrightarrow> norm_dim r (- 2) = Inr (r - 2)"
  by (auto simp: norm_dim_def)

lemma reduce_keep_Inr:
  "2 \<le> length (shape t) \<Longrightarrow>
     reduce_keep g t (- 2) =
       Inr (tabulate ((shape t)[length (shape t) - 2 := 1])
              (\<lambda>idx. g (along_axis t (length (shape t) - 2) idx)))"
  by (simp add: reduce_keep_def norm_dim_minus2 along_axis_def)

lemma bcast_shapes_same: "bcast_shapes sh sh = Some sh"
  by (induction sh) auto

lemma bcast_shapes_keep: "bcast_shapes sh (sh[d := Suc 0]) = Some sh"
proof (induction sh arbitrary: d)
  case Nil
  then show ?case by simp
next
  case (Cons s ss)
  then show ?case by (cases d) (auto simp: bcast_shapes_same)
qed

lemma bcast_index_keep:
  assumes "valid_index sh idx" "d < length sh"
  shows "bcast_index (sh[d := Suc 0]) idx = idx[d := 0]"
proof -
  have len: "length idx = length sh" using assms(1) by (rule valid_index_length)
  have "map2 (\<lambda>s i. if s = 1 then 0 else i) (sh[d := Suc 0]) idx = idx[d := 0]"
  proof (rule nth_equalityI)
    show "length (map2 (\<lambda>s i. if s = 1 then 0 else i) (sh[d := Suc 0]) idx) = length (idx[d := 0])"
      using len by simp
    fix j assume "j < length (map2 (\<lambda>s i. if s = 1 then 0 else i) (sh[d := Suc 0]) idx)"
    then have j: "j < length sh" using len by simp
    have "idx ! j < sh ! j" using assms(1) j by (rule valid_index_nth)
    then show "map2 (\<lambda>s i. if s = 1 then 0 else i) (sh[d := Suc 0]) idx ! j = idx[d := 0] ! j"
      using j len by (cases "j = d") auto
  qed
  then show ?thesis using len by (simp add: bcast_index_def)
qed

lemma binop_keep:
  assumes "shape y = (shape x)[d := 1]" "d < length (shape x)"
  shows "binop f x y = Inr (tabulate (shape x) (\<lambda>idx. f (entry x idx) (entry y (idx[d := 0]))))"
proof -
  have "binop f x y = Inr (tabulate (shape x)
          (\<lambda>idx. f (entry x (bcast_index (shape x) idx))
                    (entry y (bcast_index ((shape x)[d := 1]) idx))))"
    using assms by (simp add: binop_def pad_shape_def bcast_shapes_keep)
  also have "\<dots> = Inr (tabulate (shape x) (\<lambda>idx. f (entry x idx) (entry y (idx[d := 0]))))"
    using assms(2) by (simp add: bcast_index_same bcast_index_keep cong: tabulate_cong)
  finally show ?thesis .
qed


lemma along_axis_update [simp]: "along_axis t d (idx[d := v]) = along_axis t d idx"
  by (simp add: along_axis_def)

lemma entry_stat:
  assumes "valid_index (shape t) idx" "d < length (shape t)"
  shows "entry (tabulate ((shape t)[d := Suc 0]) (\<lambda>i. g (along_axis t d i))) (idx[d := 0])
           = g (along_axis t d idx)"
proof -
  have "valid_index ((shape t)[d := Suc 0]) (idx[d := 0])"
    using assms by (rule valid_index_update) simp
  then show ?thesis by (simp add: entry_tabulate)
qed

lemma entry_stat_style:
  assumes sh: "shape t = b # rest" and v: "valid_index (shape t) idx"
    and d: "0 < d" "d < length (shape t)" and pos: "0 < b"
  shows "entry (broadcast_style (tabulate ((shape t)[d := Suc 0]) (\<lambda>i. g (along_axis t d i))))
           (idx[d := 0])
           = g (along_axis t d (idx[0 := style_index b (idx ! 0)]))"
proof -
  obtain i "is" where idx: "idx = i # is" "i < b" "valid_index rest is"
    using v sh by (auto simp: valid_index_Cons)
  obtain d' where d': "d = Suc d'" using d(1) by (cases d) auto
  have d'l: "d' < length rest" using d(2) sh d' by simp
  have sb: "style_index b i < b" using pos by (simp add: style_index_def)
  define M where "M = tabulate ((shape t)[d := Suc 0]) (\<lambda>i. g (along_axis t d i))"
  have shM: "shape M = b # rest[d' := Suc 0]" by (simp add: M_def sh d')
  have v': "valid_index (rest[d' := Suc 0]) (is[d' := 0])"
    using idx(3) d'l by (rule valid_index_update) simp
  have vs: "valid_index (shape t) (idx[0 := style_index b (idx ! 0)])"
    using idx sb by (simp add: sh)
  have "entry (broadcast_style M) (idx[d := 0]) = entry M (style_index b i # is[d' := 0])"
    using entry_broadcast_style [OF shM idx(2) v'] by (simp add: idx d')
  also have "style_index b i # is[d' := 0] = (idx[0 := style_index b (idx ! 0)])[d := 0]"
    by (simp add: idx d')
  also have "entry M \<dots> = g (along_axis t d (idx[0 := style_index b (idx ! 0)]))"
    unfolding M_def using vs d(2) by (rule entry_stat)
  finally show ?thesis by (simp add: M_def)
qed

lemma adain_closed:
  assumes sh: "shape t = b # rest" and rk: "2 \<le> length rest" and ev: "even b" and pos: "0 < b"
  shows "adain A t = Inr (adain_ref A t)"
proof -
  define d where "d = length (shape t) - 2"
  define eps where "eps = f_lit A (1 / 100000)"
  have d: "0 < d" "d < length (shape t)" "2 \<le> length (shape t)"
    using rk sh by (simp_all add: d_def)
  obtain d' where d': "d = Suc d'" using d(1) by (cases d) auto
  define M where "M = tabulate ((shape t)[d := Suc 0]) (\<lambda>i. f_mean A (along_axis t d i))"
  define Sd where "Sd = tabulate ((shape t)[d := Suc 0])
                          (\<lambda>i. f_sqrt A (f_add A (f_var A (along_axis t d i)) eps))"
  define c1 where "c1 = tabulate (shape t) (\<lambda>idx. f_sub A (entry t idx) (entry M (idx[d := 0])))"
  define c2 where "c2 = tabulate (shape t) (\<lambda>idx. f_div A (entry c1 idx) (entry Sd (idx[d := 0])))"
  define c3 where "c3 = tabulate (shape t)
                          (\<lambda>idx. f_mul A (entry c2 idx) (entry (broadcast_style Sd) (idx[d := 0])))"
  define c4 where "c4 = tabulate (shape t)
                          (\<lambda>idx. f_add A (entry c3 idx) (entry (broadcast_style M) (idx[d := 0])))"
  have cms: "calc_mean_std A t eps = Inr (M, Sd)"
    using d(3) by (simp add: calc_mean_std_def reduce_keep_Inr map_t_tabulate M_def Sd_def
        d_def [symmetric])
  have shM: "shape M = b # rest[d' := Suc 0]" by (simp add: M_def sh d')
  have shS: "shape Sd = b # rest[d' := Suc 0]" by (simp add: Sd_def sh d')
  have eM: "expand_first A M (f_lit A 1) = Inr (broadcast_style M)"
    using shM ev pos by (rule expand_first_unit)
  have eS: "expand_first A Sd (f_lit A 1) = Inr (broadcast_style Sd)"
    using shS ev pos by (rule expand_first_unit)
  have b1: "binop (f_sub A) t M = Inr c1"
    unfolding c1_def by (rule binop_keep) (simp_all add: M_def d)
  have b2: "binop (f_div A) c1 Sd = Inr c2"
    unfolding c2_def using binop_keep [of Sd c1 d "f_div A"] d by (simp add: Sd_def c1_def)
  have b3: "binop (f_mul A) c2 (broadcast_style Sd) = Inr c3"
    unfolding c3_def using binop_keep [of "broadcast_style Sd" c2 d "f_mul A"] d
    by (simp add: Sd_def c2_def broadcast_style_def)
  have b4: "binop (f_add A) c3 (broadcast_style M) = Inr c4"
    unfolding c4_def using binop_keep [of "broadcast_style M" c3 d "f_add A"] d
    by (simp add: M_def c3_def broadcast_style_def)
  have "adain A t = Inr c4"
    by (simp add: adain_def eps_def [symmetric] cms eM eS b1 b2 b3 b4)
  moreover have "c4 = adain_ref A t"
    unfolding c4_def adain_ref_def
  proof (rule tabulate_cong)
    fix idx assume v: "valid_index (shape t) idx"
    have m: "entry M (idx[d := 0]) = mean_at A t idx"
      unfolding M_def mean_at_def d_def [symmetric] using v d(2) by (rule entry_stat)
    have s: "entry Sd (idx[d := 0]) = std_at A t idx"
      unfolding Sd_def std_at_def d_def [symmetric] eps_def [symmetric] using v d(2)
      by (rule entry_stat)
    have ms: "entry (broadcast_style M) (idx[d := 0])
                = mean_at A t (idx[0 := style_index b (idx ! 0)])"
      unfolding M_def mean_at_def d_def [symmetric]
      using sh v d(1,2) pos by (rule entry_stat_style)
    have ss: "entry (broadcast_style Sd) (idx[d := 0])
                = std_at A t (idx[0 := style_index b (idx ! 0)])"
      unfolding Sd_def std_at_def d_def [symmetric] eps_def [symmetric]
      using sh v d(1,2) pos by (rule entry_stat_style)
    have "entry c3 idx = f_mul A (f_div A (f_sub A (entry t idx) (mean_at A t idx)) (std_at A t idx))
                           (std_at A t (idx[0 := style_index b (idx ! 0)]))"
      using v by (simp add: c3_def c2_def c1_def entry_tabulate m s ss)
    then show "f_add A (entry c3 idx) (entry (broadcast_style M) (idx[d := 0])) =
          (let style = idx[0 := style_index (hd (shape t)) (idx ! 0)]
           in f_add A
                (f_mul A (f_div A (f_sub A (entry t idx) (mean_at A t idx)) (std_at A t idx))
                   (std_at A t style))
                (mean_at A t style))"
      by (simp add: ms sh Let_def)
  qed
  ultimately show ?thesis by simp
qed


lemma calc_mean_std_closed:
  assumes "2 \<le> length (shape t)"
  shows "calc_mean_std A t (f_lit A (1 / 100000)) =
           Inr (tabulate ((shape t)[length (shape t) - 2 := Suc 0]) (mean_at A t),
                tabulate ((shape t)[length (shape t) - 2 := Suc 0]) (std_at A t))"
  using assms
  by (simp add: calc_mean_std_def reduce_keep_Inr map_t_tabulate mean_at_def [abs_def]
      std_at_def [abs_def])

lemma register_norm_forward_twice:
  "register_norm_forward A (register_norm_forward A l) = register_norm_forward A l"
  by (simp add: register_norm_forward_def Let_def split: option.splits)

lemma forward_wrapped_shape:
  assumes x: "shape x = b # rest" "1 \<le> length rest" "even b" "0 < b"
  shows "\<exists>w. concat_first A x (- 2) (f_lit A 1) = Inr w
           \<and> shape w = (shape x)[length rest - 1 := 2 * (shape x ! (length rest - 1))]
           \<and> forward_wrapped A orig x =
               bnd (orig w) (\<lambda>result.
               bnd (norm_dim (length (shape result)) (- 2)) (\<lambda>d'.
               slice_dim result d' 0 (Some (shape x ! (length rest - 1)))))
           \<and> (\<forall>y. orig w = Inr y \<and> shape y = shape w \<longrightarrow>
                 (\<exists>r. forward_wrapped A orig x = Inr r \<and> shape r = shape x))"
proof -
  define d where "d = length rest - 1"
  define n where "n = shape x ! d"
  have rk: "2 \<le> length (shape x)" using x(1,2) by simp
  have nd: "norm_dim (length (shape x)) (- 2) = Inr d"
    using rk x(1) by (simp add: norm_dim_minus2 d_def)
  have dl: "d < length (shape x)" using nd by (rule norm_dim_less)
  define w where "w = tabulate ((shape x)[d := 2 * n])
                  (\<lambda>idx. if idx ! d < n then entry x idx
                         else entry (broadcast_style x) (idx[d := idx ! d - n]))"
  have cw: "concat_first A x (- 2) (f_lit A 1) = Inr w"
    unfolding w_def n_def by (rule concat_first_unit [OF x(1,3,4) nd])
  have shw: "shape w = (shape x)[d := 2 * n]" by (simp add: w_def)
  have fw: "forward_wrapped A orig x =
               bnd (orig w) (\<lambda>result.
               bnd (norm_dim (length (shape result)) (- 2)) (\<lambda>d'.
               slice_dim result d' 0 (Some n)))"
    by (simp add: forward_wrapped_def nd cw n_def)
  have "\<exists>r. forward_wrapped A orig x = Inr r \<and> shape r = shape x"
    if y: "orig w = Inr y \<and> shape y = shape w" for y
  proof -
    have y1: "orig w = Inr y" and y2: "shape y = (shape x)[d := 2 * n]"
      using y shw by simp_all
    have ndy: "norm_dim (length (shape y)) (- 2) = Inr d" using nd y2 by simp
    have dy: "d < length (shape y)" using dl y2 by simp
    have yd: "shape y ! d = 2 * n" using y2 dl by simp
    have upd: "(shape y)[d := n] = shape x" using y2 by (simp add: n_def)
    have "slice_dim y d 0 (Some n) =
            Inr (tabulate (shape x) (\<lambda>idx. entry y (idx[d := idx ! d + 0])))"
      using dy by (simp add: slice_dim_def yd upd)
    then have "forward_wrapped A orig x =
            Inr (tabulate (shape x) (\<lambda>idx. entry y (idx[d := idx ! d + 0])))"
      by (simp add: fw y1 ndy)
    then show ?thesis by simp
  qed
  then show ?thesis using cw shw fw unfolding d_def [symmetric] n_def [symmetric] by blast
qed

lemma fold_register:
  "fold (\<lambda>a st. st(a := register_norm_forward A (st a))) xs st =
     (\<lambda>a. if a \<in> set xs then register_norm_forward A (st a) else st a)"
proof (induction xs arbitrary: st)
  case Nil
  then show ?case by simp
next
  case (Cons x xs)
  have "fold (\<lambda>a st. st(a := register_norm_forward A (st a))) (x # xs) st
          = fold (\<lambda>a st. st(a := register_norm_forward A (st a))) xs
              (st(x := register_norm_forward A (st x)))"
    by simp
  also have "\<dots> = (\<lambda>a. if a \<in> set xs
                        then register_norm_forward A ((st(x := register_norm_forward A (st x))) a)
                        else (st(x := register_norm_forward A (st x))) a)"
    by (rule Cons.IH)
  also have "\<dots> = (\<lambda>a. if a \<in> set (x # xs) then register_norm_forward A (st a) else st a)"
    by (rule ext) (simp add: register_norm_forward_twice)
  finally show ?case .
qed

lemma fold_walk_subset:
  assumes "\<And>c acc. c \<in> set cs \<Longrightarrow>
             set (group_norms (get_norm_layers c acc sl sg)) \<subseteq> set (group_norms acc) \<union> set (addresses c)
           \<and> set (layer_norms (get_norm_layers c acc sl sg)) \<subseteq> set (layer_norms acc) \<union> set (addresses c)"
  shows "set (group_norms (fold (\<lambda>c acc. get_norm_layers c acc sl sg) cs nl))
           \<subseteq> set (group_norms nl) \<union> set (concat (map addresses cs))
       \<and> set (layer_norms (fold (\<lambda>c acc. get_norm_layers c acc sl sg) cs nl))
           \<subseteq> set (layer_norms nl) \<union> set (concat (map addresses cs))"
  using assms
proof (induction cs arbitrary: nl)
  case Nil
  then show ?case by simp
next
  case (Cons c cs)
  have a: "set (group_norms (get_norm_layers c nl sl sg)) \<subseteq> set (group_norms nl) \<union> set (addresses c)"
      "set (layer_norms (get_norm_layers c nl sl sg)) \<subseteq> set (layer_norms nl) \<union> set (addresses c)"
    using Cons.prems [of c nl] by simp_all
  have b: "set (group_norms (fold (\<lambda>c acc. get_norm_layers c acc sl sg) cs (get_norm_layers c nl sl sg)))
             \<subseteq> set (group_norms (get_norm_layers c nl sl sg)) \<union> set (concat (map addresses cs))"
      "set (layer_norms (fold (\<lambda>c acc. get_norm_layers c acc sl sg) cs (get_norm_layers c nl sl sg)))
             \<subseteq> set (layer_norms (get_norm_layers c nl sl sg)) \<union> set (concat (map addresses cs))"
    using Cons.IH [of "get_norm_layers c nl sl sg"] Cons.prems by simp_all
  show ?case using a b by auto
qed

lemma get_norm_layers_subset:
  "set (group_norms (get_norm_layers m nl sl sg)) \<subseteq> set (group_norms nl) \<union> set (addresses m)
   \<and> set (layer_norms (get_norm_layers m nl sl sg)) \<subseteq> set (layer_norms nl) \<union> set (addresses m)"
proof (induction m arbitrary: nl)
  case (Module a k cs)
  define nl1 where "nl1 = (if k = LayerNorm \<and> sl then nl\<lparr>layer_norms := layer_norms nl @ [a]\<rparr> else nl)"
  have n1: "set (group_norms nl1) \<subseteq> set (group_norms nl)"
      "set (layer_norms nl1) \<subseteq> set (layer_norms nl) \<union> {a}"
    by (auto simp: nl1_def)
  show ?case
  proof (cases "k = GroupNorm \<and> sg")
    case True
    then show ?thesis by auto
  next
    case False
    have "get_norm_layers (Module a k cs) nl sl sg
            = fold (\<lambda>c acc. get_norm_layers c acc sl sg) cs nl1"
      using False by (auto simp: nl1_def)
    moreover have "set (group_norms (fold (\<lambda>c acc. get_norm_layers c acc sl sg) cs nl1))
           \<subseteq> set (group_norms nl1) \<union> set (concat (map addresses cs))
       \<and> set (layer_norms (fold (\<lambda>c acc. get_norm_layers c acc sl sg) cs nl1))
           \<subseteq> set (layer_norms nl1) \<union> set (concat (map addresses cs))"
      by (rule fold_walk_subset) (use Module.IH in blast)
    ultimately show ?thesis using n1 by auto
  qed
qed

lemma fold_walk_recorded:
  assumes "\<And>c acc. c \<in> set cs \<Longrightarrow>
             get_norm_layers c acc sl sg =
               \<lparr>group_norms = group_norms acc @ recorded_groups sg c,
                layer_norms = layer_norms acc @ recorded_layers sl sg c\<rparr>"
  shows "fold (\<lambda>c acc. get_norm_layers c acc sl sg) cs nl =
           \<lparr>group_norms = group_norms nl @ concat (map (recorded_groups sg) cs),
            layer_norms = layer_norms nl @ concat (map (recorded_layers sl sg) cs)\<rparr>"
  using assms
proof (induction cs arbitrary: nl)
  case Nil
  then show ?case by simp
next
  case (Cons c cs)
  have "fold (\<lambda>c acc. get_norm_layers c acc sl sg) (c # cs) nl
          = fold (\<lambda>c acc. get_norm_layers c acc sl sg) cs (get_norm_layers c nl sl sg)"
    by simp
  also have "\<dots> = \<lparr>group_norms = group_norms (get_norm_layers c nl sl sg)
                                   @ concat (map (recorded_groups sg) cs),
                    layer_norms = layer_norms (get_norm_layers c nl sl sg)
                                   @ concat (map (recorded_layers sl sg) cs)\<rparr>"
    by (rule Cons.IH) (simp add: Cons.prems)
  also have "get_norm_layers c nl sl sg =
               \<lparr>group_norms = group_norms nl @ recorded_groups sg c,
                layer_norms = layer_norms nl @ recorded_layers sl sg c\<rparr>"
    by (rule Cons.prems) simp
  finally show ?case by simp
qed

lemma get_norm_layers_recorded:
  "get_norm_layers m nl sl sg =
     \<lparr>group_norms = group_norms nl @ recorded_groups sg m,
      layer_norms = layer_norms nl @ recorded_layers sl sg m\<rparr>"
proof (induction m arbitrary: nl)
  case (Module a k cs)
  define nl1 where
    "nl1 = (if k = LayerNorm \<and> sl then nl\<lparr>layer_norms := layer_norms nl @ [a]\<rparr> else nl)"
  show ?case
  proof (cases "k = GroupNorm \<and> sg")
    case True
    then show ?thesis by auto
  next
    case False
    have "get_norm_layers (Module a k cs) nl sl sg
            = fold (\<lambda>c acc. get_norm_layers c acc sl sg) cs nl1"
      using False by (auto simp: nl1_def)
    also have "\<dots> = \<lparr>group_norms = group_norms nl1 @ concat (map (recorded_groups sg) cs),
                      layer_norms = layer_norms nl1 @ concat (map (recorded_layers sl sg) cs)\<rparr>"
      by (rule fold_walk_recorded) (use Module.IH in blast)
    finally show ?thesis using False by (auto simp: nl1_def)
  qed
qed

lemma cat2_halves:
  assumes wfx: "wf_tensor x" and wfy: "wf_tensor y" and shy: "shape y = shape x"
    and ax: "norm_dim (length (shape x)) axis = Inr d"
  shows "\<exists>r. cat2 x y axis = Inr r
           \<and> shape r = (shape x)[d := 2 * (shape x ! d)]
           \<and> slice_dim r d 0 (Some (shape x ! d)) = Inr x
           \<and> slice_dim r d (shape x ! d) None = Inr y"
proof -
  define n where "n = shape x ! d"
  define F where "F = (\<lambda>idx. if idx ! d < n then entry x idx
                         else entry y (idx[d := idx ! d - n]))"
  define r where "r = tabulate ((shape x)[d := 2 * n]) F"
  have d: "d < length (shape x)" using ax by (rule norm_dim_less)
  have r: "cat2 x y axis = Inr r"
    unfolding r_def F_def n_def
    using cat2_same_shape [OF shy ax] by (simp add: mult_2)
  have shr: "shape r = (shape x)[d := 2 * n]" by (simp add: r_def)
  have upd: "(shape x)[d := n] = shape x" by (simp add: n_def)
  have first: "slice_dim r d 0 (Some n) = Inr x"
  proof -
    have "slice_dim r d 0 (Some n)
            = Inr (tabulate (shape x) (\<lambda>idx. entry r (idx[d := idx ! d])))"
      unfolding r_def using d by (simp add: slice_of_tabulate upd)
    moreover have "tabulate (shape x) (\<lambda>idx. entry r (idx[d := idx ! d])) = x"
    proof (rule tensor_eqI)
      fix idx assume "valid_index (shape (tabulate (shape x) (\<lambda>idx. entry r (idx[d := idx ! d])))) idx"
      then have v: "valid_index (shape x) idx" by simp
      then have lt: "idx ! d < n" using d by (simp add: valid_index_nth n_def)
      have v': "valid_index ((shape x)[d := 2 * n]) idx"
        using v d by (rule valid_index_widen) (simp add: n_def)
      have "entry r idx = entry x idx"
        unfolding r_def using v' lt by (simp add: entry_tabulate F_def)
      then show "entry (tabulate (shape x) (\<lambda>idx. entry r (idx[d := idx ! d]))) idx = entry x idx"
        using v by (simp add: entry_tabulate)
    qed (simp_all add: wfx)
    ultimately show ?thesis by simp
  qed
  have second: "slice_dim r d n None = Inr y"
  proof -
    have "slice_dim r d n None
            = Inr (tabulate (shape x) (\<lambda>idx. entry r (idx[d := idx ! d + n])))"
      unfolding r_def using d by (simp add: slice_of_tabulate upd)
    moreover have "tabulate (shape x) (\<lambda>idx. entry r (idx[d := idx ! d + n])) = y"
    proof (rule tensor_eqI)
      fix idx assume "valid_index (shape (tabulate (shape x) (\<lambda>idx. entry r (idx[d := idx ! d + n])))) idx"
      then have v: "valid_index (shape x) idx" by simp
      then have lt: "idx ! d < n" using d by (simp add: valid_index_nth n_def)
      have len: "d < length idx" using v d by (simp add: valid_index_length)
      have v': "valid_index ((shape x)[d := 2 * n]) (idx[d := idx ! d + n])"
        using v d by (rule valid_index_update) (use lt in simp)
      have "entry r (idx[d := idx ! d + n]) = entry y idx"
        unfolding r_def using v' len by (simp add: entry_tabulate F_def)
      then show "entry (tabulate (shape x) (\<lambda>idx. entry r (idx[d := idx ! d + n]))) idx
                   = entry y idx"
        using v by (simp add: entry_tabulate)
    qed (simp_all add: wfy shy)
    ultimately show ?thesis by simp
  qed
  show ?thesis using r shr first second by (simp add: n_def)
qed

lemma expand_first_style:
  assumes sh: "shape t = b # rest" and ev: "even b" and pos: "0 < b"
    and rk: "length rest = 3 \<or> s = f_lit A 1"
  shows "\<exists>st. expand_first A t s = Inr st \<and> wf_tensor st \<and> shape st = shape t
           \<and> (\<forall>i. i < b \<longrightarrow>
                 (\<exists>x. select0 t (style_index b i) = Inr x
                      \<and> select0 st i =
                          Inr (if s = f_lit A 1 \<or> i = 0 \<or> i = b div 2 then x
                               else map_t (f_mul A s) x)))"
proof (cases "s = f_lit A 1")
  case True
  have e: "expand_first A t s = Inr (broadcast_style t)"
    using expand_first_unit [OF sh ev pos, of A] True by simp
  have "\<exists>x. select0 t (style_index b i) = Inr x \<and> select0 (broadcast_style t) i = Inr x"
    if "i < b" for i
  proof -
    have "style_index b i < b" using pos by (simp add: style_index_def)
    then show ?thesis
      using select0_broadcast_style [OF sh that pos] select0_Inr [OF sh] by simp
  qed
  then show ?thesis using e True by (simp add: broadcast_style_def)
next
  case False
  then have "length rest = 3" using rk by simp
  then obtain c n d where rest: "rest = [c, n, d]"
    by (cases rest; cases "tl rest"; cases "tl (tl rest)"; cases "tl (tl (tl rest))") auto
  then have sh4: "shape t = [b, c, n, d]" using sh by simp
  have e: "expand_first A t s = Inr (damped_style A t s)"
    using sh4 ev pos False by (rule expand_first_scaled)
  have "\<exists>x. select0 t (style_index b i) = Inr x
          \<and> select0 (damped_style A t s) i =
              Inr (if i = 0 \<or> i = b div 2 then x else map_t (f_mul A s) x)"
    if i: "i < b" for i
  proof -
    have sb: "style_index b i < b" using pos by (simp add: style_index_def)
    have si: "i = 0 \<or> i = b div 2 \<Longrightarrow> style_index b i = i"
      using pos by (auto simp: style_index_def)
    show ?thesis
      using select0_damped_style [OF sh i, of A s] select0_Inr [OF sh sb] si
      by (auto simp: map_t_tabulate)
  qed
  then show ?thesis using e False by (simp add: damped_style_def)
qed


lemma adain_result:
  assumes "shape t = b # rest" "2 \<le> length rest" "even b" "0 < b"
  shows "\<exists>r. adain A t = Inr r \<and> shape r = shape t \<and> wf_tensor r"
  using adain_closed [OF assms, of A] by (simp add: adain_ref_def)

lemma concat_first_halves:
  assumes wf: "wf_tensor t" and sh: "shape t = b # rest" and ev: "even b" and pos: "0 < b"
    and rk: "2 \<le> length rest" "length rest = 3 \<or> s = f_lit A 1"
  shows "\<exists>r st. concat_first A t (- 2) s = Inr r
           \<and> shape r = (shape t)[length rest - 1 := 2 * (shape t ! (length rest - 1))]
           \<and> slice_dim r (length rest - 1) 0 (Some (shape t ! (length rest - 1))) = Inr t
           \<and> slice_dim r (length rest - 1) (shape t ! (length rest - 1)) None = Inr st
           \<and> (\<forall>i. i < b \<longrightarrow>
                 (\<exists>x. select0 t (style_index b i) = Inr x
                      \<and> select0 st i =
                          Inr (if s = f_lit A 1 \<or> i = 0 \<or> i = b div 2 then x
                               else map_t (f_mul A s) x)))"
proof -
  obtain st where st: "expand_first A t s = Inr st" "wf_tensor st" "shape st = shape t"
      "\<forall>i. i < b \<longrightarrow>
                 (\<exists>x. select0 t (style_index b i) = Inr x
                      \<and> select0 st i =
                          Inr (if s = f_lit A 1 \<or> i = 0 \<or> i = b div 2 then x
                               else map_t (f_mul A s) x))"
    using expand_first_style [OF sh ev pos rk(2)] by blast
  have nd: "norm_dim (length (shape t)) (- 2) = Inr (length rest - 1)"
    using rk(1) sh by (simp add: norm_dim_minus2)
  obtain r where r: "cat2 t st (- 2) = Inr r"
      "shape r = (shape t)[length rest - 1 := 2 * (shape t ! (length rest - 1))]"
      "slice_dim r (length rest - 1) 0 (Some (shape t ! (length rest - 1))) = Inr t"
      "slice_dim r (length rest - 1) (shape t ! (length rest - 1)) None = Inr st"
    using cat2_halves [OF wf st(2,3) nd] by blast
  have "concat_first A t (- 2) s = Inr r" by (simp add: concat_first_def st(1) r(1))
  then show ?thesis using r(2,3,4) st(4) by blast
qed

section \<open>Properties of the batch broadcaster\<close>

text \<open>
  C3. Let \<open>t\<close> be a tensor whose batch, the first axis, has an even number \<open>b\<close> of
  elements, the style elements \<open>t[0]\<close> and \<open>t[b div 2]\<close> among them (so \<open>b > 0\<close>).
  Then \<open>expand_first\<close> with scale 1 returns a tensor of the shape of \<open>t\<close>; each of its
  batch elements in the first half, \<open>i < b div 2\<close>, is \<open>t[0]\<close>, and each in the second
  half, \<open>b div 2 \<le> i < b\<close>, is \<open>t[b div 2]\<close>.
\<close>

theorem expand_first_unit_scale:
  assumes "shape t = b # rest" and "even b" and "0 < b"
  shows "\<exists>r. expand_first A t (f_lit A 1) = Inr r \<and> shape r = shape t
           \<and> (\<forall>i. i < b div 2 \<longrightarrow> select0 r i = select0 t 0)
           \<and> (\<forall>i. b div 2 \<le> i \<and> i < b \<longrightarrow> select0 r i = select0 t (b div 2))"
proof -
  have "select0 (broadcast_style t) i = select0 t 0" if "i < b div 2" for i
    using select0_broadcast_style [OF assms(1) _ assms(3), of i] that
    by (simp add: style_index_def)
  moreover have "select0 (broadcast_style t) i = select0 t (b div 2)"
    if "b div 2 \<le> i \<and> i < b" for i
    using select0_broadcast_style [OF assms(1) _ assms(3), of i] that
    by (simp add: style_index_def)
  ultimately show ?thesis
    using expand_first_unit [OF assms, of A] by (simp add: broadcast_style_def)
qed

theorem expand_first_unit_scale_witness:
  "shape \<lparr>shape = [4, 1], entries = [1, 2, 3, 4 :: real]\<rparr> = 4 # [1]
   \<and> even (4 :: nat) \<and> 0 < (4 :: nat)
   \<and> (\<exists>r. expand_first real_arith \<lparr>shape = [4, 1], entries = [1, 2, 3, 4]\<rparr>
              (f_lit real_arith 1) = Inr r
         \<and> shape r = [4, 1]
         \<and> select0 r 1 = select0 \<lparr>shape = [4, 1], entries = [1, 2, 3, 4]\<rparr> 0
         \<and> select0 r 3 = select0 \<lparr>shape = [4, 1], entries = [1, 2, 3, 4]\<rparr> 2)"
proof -
  obtain r where r: "expand_first real_arith \<lparr>shape = [4, 1], entries = [1, 2, 3, 4]\<rparr>
              (f_lit real_arith 1) = Inr r"
      "shape r = [4, 1]"
      "\<forall>i. i < 4 div 2 \<longrightarrow> select0 r i = select0 \<lparr>shape = [4, 1], entries = [1, 2, 3, 4 :: real]\<rparr> 0"
      "\<forall>i. 4 div 2 \<le> i \<and> i < 4 \<longrightarrow>
           select0 r i = select0 \<lparr>shape = [4, 1], entries = [1, 2, 3, 4 :: real]\<rparr> (4 div 2)"
    using expand_first_unit_scale
      [of "\<lparr>shape = [4, 1], entries = [1, 2, 3, 4 :: real]\<rparr>" 4 "[1]" real_arith]
    by auto
  have "select0 r 1 = select0 \<lparr>shape = [4, 1], entries = [1, 2, 3, 4 :: real]\<rparr> 0"
    using r(3) by simp
  moreover have "select0 r 3 = select0 \<lparr>shape = [4, 1], entries = [1, 2, 3, 4 :: real]\<rparr> 2"
    using r(4) by simp
  ultimately show ?thesis using r(1,2) by simp
qed

text \<open>
  C4. For a tensor \<open>t\<close> with such a batch and every axis of \<open>t\<close> (\<open>d\<close> is the axis the
  argument denotes, counted from the first), \<open>concat_first\<close> with scale 1 returns a
  tensor whose extent along the axis is twice that of \<open>t\<close>; its first half along the axis
  is \<open>t\<close> itself and its second half is \<open>expand_first t\<close> with scale 1.
\<close>

theorem concat_first_unit_scale:
  assumes wf: "wf_tensor t" and sh: "shape t = b # rest" and ev: "even b" and pos: "0 < b"
    and ax: "norm_dim (length (shape t)) axis = Inr d"
  shows "\<exists>r s. concat_first A t axis (f_lit A 1) = Inr r
           \<and> shape r = (shape t)[d := 2 * (shape t ! d)]
           \<and> slice_dim r d 0 (Some (shape t ! d)) = Inr t
           \<and> expand_first A t (f_lit A 1) = Inr s
           \<and> slice_dim r d (shape t ! d) None = Inr s"
proof -
  define n where "n = shape t ! d"
  define F where "F = (\<lambda>idx. if idx ! d < n then entry t idx
                         else entry (broadcast_style t) (idx[d := idx ! d - n]))"
  define r where "r = tabulate ((shape t)[d := 2 * n]) F"
  have d: "d < length (shape t)" using ax by (rule norm_dim_less)
  have r: "concat_first A t axis (f_lit A 1) = Inr r"
    unfolding r_def F_def n_def by (rule concat_first_unit [OF sh ev pos ax])
  have s: "expand_first A t (f_lit A 1) = Inr (broadcast_style t)"
    by (rule expand_first_unit [OF sh ev pos])
  have shr: "shape r = (shape t)[d := 2 * n]" by (simp add: r_def)
  have upd: "(shape t)[d := n] = shape t" by (simp add: n_def)
  have first: "slice_dim r d 0 (Some n) = Inr t"
  proof -
    have "slice_dim r d 0 (Some n)
            = Inr (tabulate (shape t) (\<lambda>idx. entry r (idx[d := idx ! d])))"
      unfolding r_def using d by (simp add: slice_of_tabulate n_def [symmetric] upd)
    moreover have "tabulate (shape t) (\<lambda>idx. entry r (idx[d := idx ! d])) = t"
    proof (rule tensor_eqI)
      fix idx assume "valid_index (shape (tabulate (shape t) (\<lambda>idx. entry r (idx[d := idx ! d])))) idx"
      then have v: "valid_index (shape t) idx" by simp
      then have lt: "idx ! d < n" using d by (simp add: valid_index_nth n_def)
      have v': "valid_index ((shape t)[d := 2 * n]) idx"
        using v d by (rule valid_index_widen) (simp add: n_def)
      have "entry r idx = entry t idx"
        unfolding r_def using v' lt by (simp add: entry_tabulate F_def)
      then show "entry (tabulate (shape t) (\<lambda>idx. entry r (idx[d := idx ! d]))) idx = entry t idx"
        using v by (simp add: entry_tabulate)
    qed (simp_all add: wf)
    ultimately show ?thesis by simp
  qed
  have second: "slice_dim r d n None = Inr (broadcast_style t)"
  proof -
    have "slice_dim r d n None
            = Inr (tabulate (shape t) (\<lambda>idx. entry r (idx[d := idx ! d + n])))"
      unfolding r_def using d by (simp add: slice_of_tabulate n_def [symmetric] upd)
    moreover have "tabulate (shape t) (\<lambda>idx. entry r (idx[d := idx ! d + n])) = broadcast_style t"
    proof (rule tensor_eqI)
      fix idx assume "valid_index (shape (tabulate (shape t) (\<lambda>idx. entry r (idx[d := idx ! d + n])))) idx"
      then have v: "valid_index (shape t) idx" by simp
      then have lt: "idx ! d < n" using d by (simp add: valid_index_nth n_def)
      have len: "d < length idx" using v d by (simp add: valid_index_length)
      have v': "valid_index ((shape t)[d := 2 * n]) (idx[d := idx ! d + n])"
        using v d by (rule valid_index_update) (use lt in simp)
      have "entry r (idx[d := idx ! d + n]) = entry (broadcast_style t) idx"
        unfolding r_def using v' len by (simp add: entry_tabulate F_def)
      then show "entry (tabulate (shape t) (\<lambda>idx. entry r (idx[d := idx ! d + n]))) idx
                   = entry (broadcast_style t) idx"
        using v by (simp add: entry_tabulate)
    qed (simp_all add: broadcast_style_def)
    ultimately show ?thesis by simp
  qed
  show ?thesis using r s shr first second by (simp add: n_def)
qed

theorem concat_first_unit_scale_witness:
  "wf_tensor \<lparr>shape = [2, 1, 2, 1], entries = [1, 2, 3, 4 :: real]\<rparr>
   \<and> shape \<lparr>shape = [2, 1, 2, 1], entries = [1, 2, 3, 4 :: real]\<rparr> = 2 # [1, 2, 1]
   \<and> even (2 :: nat) \<and> 0 < (2 :: nat)
   \<and> norm_dim (length (shape \<lparr>shape = [2, 1, 2, 1], entries = [1, 2, 3, 4 :: real]\<rparr>)) (- 2) = Inr 2
   \<and> (\<exists>r s. concat_first real_arith \<lparr>shape = [2, 1, 2, 1], entries = [1, 2, 3, 4]\<rparr> (- 2)
               (f_lit real_arith 1) = Inr r
         \<and> shape r = [2, 1, 4, 1]
         \<and> slice_dim r 2 0 (Some 2) = Inr \<lparr>shape = [2, 1, 2, 1], entries = [1, 2, 3, 4]\<rparr>
         \<and> expand_first real_arith \<lparr>shape = [2, 1, 2, 1], entries = [1, 2, 3, 4]\<rparr>
              (f_lit real_arith 1) = Inr s
         \<and> slice_dim r 2 2 None = Inr s)"
proof -
  have h: "wf_tensor \<lparr>shape = [2, 1, 2, 1], entries = [1, 2, 3, 4 :: real]\<rparr>"
      "shape \<lparr>shape = [2, 1, 2, 1], entries = [1, 2, 3, 4 :: real]\<rparr> = 2 # [1, 2, 1]"
      "even (2 :: nat)" "0 < (2 :: nat)"
      "norm_dim (length (shape \<lparr>shape = [2, 1, 2, 1], entries = [1, 2, 3, 4 :: real]\<rparr>)) (- 2) = Inr 2"
    by (simp_all add: wf_tensor_def norm_dim_def)
  show ?thesis
    using h concat_first_unit_scale [OF h, of real_arith] by simp
qed

text \<open>
  C2, as amended. For a tensor \<open>t\<close> of four axes with a batch of even size \<open>b > 0\<close> and a
  scale \<open>s\<close> other than 1, \<open>expand_first\<close> returns a tensor of the shape of \<open>t\<close> in which
  the first slot of each half of the batch is unscaled, slot \<open>0\<close> being \<open>t[0]\<close> and slot
  \<open>b div 2\<close> being \<open>t[b div 2]\<close>, and every other slot is scaled: slot \<open>i\<close> is
  \<open>s * t[0]\<close> for \<open>0 < i < b div 2\<close> and \<open>s * t[b div 2]\<close> for \<open>b div 2 < i < b\<close>.
\<close>

theorem expand_first_scaled_slots:
  assumes sh: "shape t = [b, c, n, d]" and ev: "even b" and pos: "0 < b"
    and sc: "s \<noteq> f_lit A 1"
  shows "\<exists>r. expand_first A t s = Inr r \<and> shape r = shape t
           \<and> select0 r 0 = select0 t 0
           \<and> select0 r (b div 2) = select0 t (b div 2)
           \<and> (\<forall>i. 0 < i \<and> i < b div 2 \<longrightarrow>
                 (\<exists>x. select0 t 0 = Inr x \<and> select0 r i = Inr (map_t (f_mul A s) x)))
           \<and> (\<forall>i. b div 2 < i \<and> i < b \<longrightarrow>
                 (\<exists>x. select0 t (b div 2) = Inr x \<and> select0 r i = Inr (map_t (f_mul A s) x)))"
proof -
  define r where "r = damped_style A t s"
  have sh': "shape t = b # [c, n, d]" using sh by simp
  have h: "b div 2 < b" using pos by simp
  have r: "expand_first A t s = Inr r"
    unfolding r_def by (rule expand_first_scaled [OF sh ev pos sc])
  have shr: "shape r = shape t" by (simp add: r_def damped_style_def)
  have a: "select0 r 0 = select0 t 0"
    unfolding r_def using pos by (simp add: select0_damped_style [OF sh'] select0_Inr [OF sh'])
  have b: "select0 r (b div 2) = select0 t (b div 2)"
    unfolding r_def using h by (simp add: select0_damped_style [OF sh'] select0_Inr [OF sh'])
  have c: "select0 r i = Inr (map_t (f_mul A s) (tabulate [c, n, d] (\<lambda>idx. entry t (0 # idx))))"
    if "0 < i \<and> i < b div 2" for i
  proof -
    have "i < b" using that by linarith
    then show ?thesis
      unfolding r_def using that
      by (simp add: select0_damped_style [OF sh'] map_t_tabulate style_index_def)
  qed
  have d: "select0 r i = Inr (map_t (f_mul A s) (tabulate [c, n, d] (\<lambda>idx. entry t (b div 2 # idx))))"
    if "b div 2 < i \<and> i < b" for i
    unfolding r_def using that
    by (simp add: select0_damped_style [OF sh'] map_t_tabulate style_index_def)
  show ?thesis
    using r shr a b c d select0_Inr [OF sh' pos] select0_Inr [OF sh' h] by auto
qed

theorem expand_first_scaled_slots_witness:
  "shape \<lparr>shape = [4, 1, 1, 1], entries = [1, 2, 3, 4 :: real]\<rparr> = [4, 1, 1, 1]
   \<and> even (4 :: nat) \<and> 0 < (4 :: nat) \<and> (1 / 2 :: real) \<noteq> f_lit real_arith 1
   \<and> (\<exists>r. expand_first real_arith \<lparr>shape = [4, 1, 1, 1], entries = [1, 2, 3, 4]\<rparr> (1 / 2) = Inr r
         \<and> shape r = [4, 1, 1, 1]
         \<and> select0 r 0 = select0 \<lparr>shape = [4, 1, 1, 1], entries = [1, 2, 3, 4]\<rparr> 0
         \<and> select0 r 2 = select0 \<lparr>shape = [4, 1, 1, 1], entries = [1, 2, 3, 4]\<rparr> 2
         \<and> (\<exists>x. select0 \<lparr>shape = [4, 1, 1, 1], entries = [1, 2, 3, 4]\<rparr> 0 = Inr x
                \<and> select0 r 1 = Inr (map_t (f_mul real_arith (1 / 2)) x))
         \<and> (\<exists>x. select0 \<lparr>shape = [4, 1, 1, 1], entries = [1, 2, 3, 4]\<rparr> 2 = Inr x
                \<and> select0 r 3 = Inr (map_t (f_mul real_arith (1 / 2)) x)))"
proof -
  have h: "shape \<lparr>shape = [4, 1, 1, 1], entries = [1, 2, 3, 4 :: real]\<rparr> = [4, 1, 1, 1]"
      "even (4 :: nat)" "0 < (4 :: nat)" "(1 / 2 :: real) \<noteq> f_lit real_arith 1"
    by (simp_all add: real_arith_def)
  obtain r where r: "expand_first real_arith \<lparr>shape = [4, 1, 1, 1], entries = [1, 2, 3, 4]\<rparr> (1 / 2) = Inr r"
      "shape r = shape \<lparr>shape = [4, 1, 1, 1], entries = [1, 2, 3, 4 :: real]\<rparr>"
      "select0 r 0 = select0 \<lparr>shape = [4, 1, 1, 1], entries = [1, 2, 3, 4]\<rparr> 0"
      "select0 r (4 div 2) = select0 \<lparr>shape = [4, 1, 1, 1], entries = [1, 2, 3, 4]\<rparr> (4 div 2)"
      "\<forall>i. 0 < i \<and> i < 4 div 2 \<longrightarrow>
         (\<exists>x. select0 \<lparr>shape = [4, 1, 1, 1], entries = [1, 2, 3, 4]\<rparr> 0 = Inr x
              \<and> select0 r i = Inr (map_t (f_mul real_arith (1 / 2)) x))"
      "\<forall>i. 4 div 2 < i \<and> i < 4 \<longrightarrow>
         (\<exists>x. select0 \<lparr>shape = [4, 1, 1, 1], entries = [1, 2, 3, 4]\<rparr> (4 div 2) = Inr x
              \<and> select0 r i = Inr (map_t (f_mul real_arith (1 / 2)) x))"
    using expand_first_scaled_slots [OF h] by blast
  have "\<exists>x. select0 \<lparr>shape = [4, 1, 1, 1], entries = [1, 2, 3, 4]\<rparr> 0 = Inr x
                \<and> select0 r 1 = Inr (map_t (f_mul real_arith (1 / 2)) x)"
    using r(5) by simp
  moreover have "\<exists>x. select0 \<lparr>shape = [4, 1, 1, 1], entries = [1, 2, 3, 4]\<rparr> 2 = Inr x
                \<and> select0 r 3 = Inr (map_t (f_mul real_arith (1 / 2)) x)"
    using r(6) by simp
  ultimately show ?thesis using h r(1-4) by simp
qed

text \<open>
  C2 as stated fails: it has every slot but slot 0 scaled. With a batch of four and scale
  \<open>1/2\<close>, slot 2 of the result is \<open>t[2]\<close> unscaled, \<open>[3]\<close>, not \<open>1/2 * t[2] = [3/2]\<close>.
\<close>

theorem expand_first_scaled_counterexample:
  "expand_first real_arith \<lparr>shape = [4, 1, 1, 1], entries = [1, 2, 3, 4]\<rparr> (1 / 2)
     = Inr \<lparr>shape = [4, 1, 1, 1], entries = [1, 1 / 2, 3, 3 / 2]\<rparr>
   \<and> select0 \<lparr>shape = [4, 1, 1, 1], entries = [1, 1 / 2, 3, 3 / 2 :: real]\<rparr> 2
       = Inr \<lparr>shape = [1, 1, 1], entries = [3]\<rparr>
   \<and> select0 \<lparr>shape = [4, 1, 1, 1], entries = [1, 2, 3, 4 :: real]\<rparr> 2
       = Inr \<lparr>shape = [1, 1, 1], entries = [3]\<rparr>
   \<and> map_t (f_mul real_arith (1 / 2)) \<lparr>shape = [1, 1, 1], entries = [3]\<rparr>
       = \<lparr>shape = [1, 1, 1], entries = [3 / 2]\<rparr>
   \<and> \<lparr>shape = [1, 1, 1], entries = [3 :: real]\<rparr> \<noteq> \<lparr>shape = [1, 1, 1], entries = [3 / 2]\<rparr>"
  by (simp add: eval_defs)

text \<open>
  With three axes the repeat branch, which names five axes, tiles the two style elements
  alternately, so that the halves of the batch are mixed. The properties below leave a
  scale other than 1 on three axes aside.
\<close>

lemma expand_first_three_axes_scaled:
  "expand_first real_arith \<lparr>shape = [4, 1, 2], entries = [1, 2, 3, 4, 5, 6, 7, 8]\<rparr> (1 / 2)
     = Inr \<lparr>shape = [4, 1, 2], entries = [1, 2, 5 / 2, 3, 1 / 2, 1, 5 / 2, 3]\<rparr>"
  by (simp add: eval_defs)

section \<open>Properties of the statistics normalizer\<close>

text \<open>
  C5. Let \<open>t\<close> have a batch of even size \<open>b > 0\<close> and, after the batch axis, at least two
  more axes, so that the second-to-last axis \<open>d\<close>, the sequence axis, is not the batch
  axis. Then \<open>calc_mean_std\<close> returns \<open>mean\<close> and \<open>std\<close> of the shape of \<open>t\<close> with extent
  1 along \<open>d\<close>, holding the mean of the entries along \<open>d\<close> and \<open>sqrt (var + 1e-5)\<close> of
  them; \<open>expand_first\<close> with scale 1 makes of them \<open>style_mean\<close> and \<open>style_std\<close>, which
  hold at every batch index the statistics of the style element of its half-batch (index
  0 or \<open>b div 2\<close>); and \<open>adain t\<close> is, entry by entry,
  \<open>(t - mean) / std * style_std + style_mean\<close>.
\<close>

theorem adain_formula:
  assumes sh: "shape t = b # rest" and rk: "2 \<le> length rest" and ev: "even b" and pos: "0 < b"
  shows "\<exists>mean std style_mean style_std r.
           calc_mean_std A t (f_lit A (1 / 100000)) = Inr (mean, std)
         \<and> shape mean = (shape t)[length rest - 1 := 1] \<and> shape std = shape mean
         \<and> expand_first A mean (f_lit A 1) = Inr style_mean
         \<and> expand_first A std (f_lit A 1) = Inr style_std
         \<and> adain A t = Inr r \<and> shape r = shape t
         \<and> (\<forall>idx. valid_index (shape t) idx \<longrightarrow>
               (let d = length rest - 1;
                    stat = idx[d := 0];
                    style = stat[0 := style_index b (idx ! 0)]
                in entry mean stat = f_mean A (along_axis t d idx)
                 \<and> entry std stat =
                     f_sqrt A (f_add A (f_var A (along_axis t d idx)) (f_lit A (1 / 100000)))
                 \<and> entry style_mean stat = entry mean style
                 \<and> entry style_std stat = entry std style
                 \<and> entry r idx =
                     f_add A
                       (f_mul A
                          (f_div A (f_sub A (entry t idx) (entry mean stat)) (entry std stat))
                          (entry style_std stat))
                       (entry style_mean stat)))"
proof -
  define d where "d = length rest - 1"
  have dd: "length (shape t) - 2 = d" using sh by (simp add: d_def)
  have d: "0 < d" "d < length (shape t)" "2 \<le> length (shape t)"
    using rk sh by (simp_all add: d_def)
  obtain d' where d': "d = Suc d'" using d(1) by (cases d) auto
  define M where "M = tabulate ((shape t)[d := Suc 0]) (mean_at A t)"
  define Sd where "Sd = tabulate ((shape t)[d := Suc 0]) (std_at A t)"
  have cms: "calc_mean_std A t (f_lit A (1 / 100000)) = Inr (M, Sd)"
    using calc_mean_std_closed [OF d(3), of A] by (simp add: M_def Sd_def dd)
  have shM: "shape M = b # rest[d' := Suc 0]" by (simp add: M_def sh d')
  have shS: "shape Sd = b # rest[d' := Suc 0]" by (simp add: Sd_def sh d')
  have eM: "expand_first A M (f_lit A 1) = Inr (broadcast_style M)"
    using shM ev pos by (rule expand_first_unit)
  have eS: "expand_first A Sd (f_lit A 1) = Inr (broadcast_style Sd)"
    using shS ev pos by (rule expand_first_unit)
  have ad: "adain A t = Inr (adain_ref A t)"
    using sh rk ev pos by (rule adain_closed)
  have M': "M = tabulate ((shape t)[d := Suc 0]) (\<lambda>i. f_mean A (along_axis t d i))"
    by (simp add: M_def mean_at_def dd cong: tabulate_cong)
  have S': "Sd = tabulate ((shape t)[d := Suc 0])
                   (\<lambda>i. f_sqrt A (f_add A (f_var A (along_axis t d i)) (f_lit A (1 / 100000))))"
    by (simp add: Sd_def std_at_def dd cong: tabulate_cong)
  have pt: "entry M (idx[d := 0]) = f_mean A (along_axis t d idx)
          \<and> entry Sd (idx[d := 0]) =
               f_sqrt A (f_add A (f_var A (along_axis t d idx)) (f_lit A (1 / 100000)))
          \<and> entry (broadcast_style M) (idx[d := 0])
               = entry M (idx[d := 0, 0 := style_index b (idx ! 0)])
          \<and> entry (broadcast_style Sd) (idx[d := 0])
               = entry Sd (idx[d := 0, 0 := style_index b (idx ! 0)])
          \<and> entry (adain_ref A t) idx =
               f_add A
                 (f_mul A
                    (f_div A (f_sub A (entry t idx) (entry M (idx[d := 0])))
                       (entry Sd (idx[d := 0])))
                    (entry (broadcast_style Sd) (idx[d := 0])))
                 (entry (broadcast_style M) (idx[d := 0]))"
    if v: "valid_index (shape t) idx" for idx
  proof -
    obtain i "is" where idx: "idx = i # is" "i < b" "valid_index rest is"
      using v sh by (auto simp: valid_index_Cons)
    have sb: "style_index b i < b" using pos by (simp add: style_index_def)
    have vs: "valid_index (shape t) (idx[0 := style_index b (idx ! 0)])"
      using idx sb by (simp add: sh)
    have sw: "idx[d := 0, 0 := style_index b (idx ! 0)]
                = (idx[0 := style_index b (idx ! 0)])[d := 0]"
      by (simp add: idx d')
    have m: "entry M (idx[d := 0]) = f_mean A (along_axis t d idx)"
      unfolding M' using v d(2) by (rule entry_stat)
    have s: "entry Sd (idx[d := 0]) =
               f_sqrt A (f_add A (f_var A (along_axis t d idx)) (f_lit A (1 / 100000)))"
      unfolding S' using v d(2) by (rule entry_stat)
    have ms: "entry (broadcast_style M) (idx[d := 0])
                = f_mean A (along_axis t d (idx[0 := style_index b (idx ! 0)]))"
      unfolding M' using sh v d(1,2) pos by (rule entry_stat_style)
    have ss: "entry (broadcast_style Sd) (idx[d := 0])
                = f_sqrt A (f_add A (f_var A (along_axis t d (idx[0 := style_index b (idx ! 0)])))
                              (f_lit A (1 / 100000)))"
      unfolding S' using sh v d(1,2) pos by (rule entry_stat_style)
    have m2: "entry M (idx[d := 0, 0 := style_index b (idx ! 0)])
                = f_mean A (along_axis t d (idx[0 := style_index b (idx ! 0)]))"
      unfolding sw M' using vs d(2) by (rule entry_stat)
    have s2: "entry Sd (idx[d := 0, 0 := style_index b (idx ! 0)])
                = f_sqrt A (f_add A (f_var A (along_axis t d (idx[0 := style_index b (idx ! 0)])))
                              (f_lit A (1 / 100000)))"
      unfolding sw S' using vs d(2) by (rule entry_stat)
    have "entry (adain_ref A t) idx =
               f_add A
                 (f_mul A
                    (f_div A (f_sub A (entry t idx) (entry M (idx[d := 0])))
                       (entry Sd (idx[d := 0])))
                    (entry (broadcast_style Sd) (idx[d := 0])))
                 (entry (broadcast_style M) (idx[d := 0]))"
    proof -
      have ma: "mean_at A t j = f_mean A (along_axis t d j)" for j
        by (simp add: mean_at_def dd)
      have sa: "std_at A t j =
                  f_sqrt A (f_add A (f_var A (along_axis t d j)) (f_lit A (1 / 100000)))" for j
        by (simp add: std_at_def dd)
      have "hd (shape t) = b" by (simp add: sh)
      then show ?thesis
        using v by (simp add: adain_ref_def entry_tabulate Let_def ma sa m s ms ss)
    qed
    then show ?thesis using m s ms ss m2 s2 by simp
  qed
  have shr: "shape (adain_ref A t) = shape t" by (simp add: adain_ref_def)
  have shM1: "shape M = (shape t)[length rest - 1 := 1]" by (simp add: M_def d_def)
  have shS1: "shape Sd = shape M" by (simp add: M_def Sd_def)
  show ?thesis
    apply (rule exI [of _ M], rule exI [of _ Sd], rule exI [of _ "broadcast_style M"],
        rule exI [of _ "broadcast_style Sd"], rule exI [of _ "adain_ref A t"])
    using cms shM1 shS1 eM eS ad shr pt by (simp add: Let_def d_def)
qed


theorem adain_formula_witness:
  "shape \<lparr>shape = [2, 1, 2, 1], entries = [1, 2, 3, 4 :: real]\<rparr> = 2 # [1, 2, 1]
   \<and> 2 \<le> length [1, 2, 1 :: nat] \<and> even (2 :: nat) \<and> 0 < (2 :: nat)
   \<and> (\<exists>mean std style_mean style_std r.
         calc_mean_std real_arith \<lparr>shape = [2, 1, 2, 1], entries = [1, 2, 3, 4]\<rparr>
           (f_lit real_arith (1 / 100000)) = Inr (mean, std)
       \<and> shape mean = [2, 1, 1, 1]
       \<and> adain real_arith \<lparr>shape = [2, 1, 2, 1], entries = [1, 2, 3, 4]\<rparr> = Inr r
       \<and> shape r = [2, 1, 2, 1]
       \<and> entry mean [1, 0, 0, 0] =
           f_mean real_arith (along_axis \<lparr>shape = [2, 1, 2, 1], entries = [1, 2, 3, 4]\<rparr> 2 [1, 0, 1, 0])
       \<and> entry style_mean [1, 0, 0, 0] = entry mean [1, 0, 0, 0]
       \<and> entry r [1, 0, 1, 0] =
           f_add real_arith
             (f_mul real_arith
                (f_div real_arith
                   (f_sub real_arith (entry \<lparr>shape = [2, 1, 2, 1], entries = [1, 2, 3, 4]\<rparr> [1, 0, 1, 0])
                      (entry mean [1, 0, 0, 0]))
                   (entry std [1, 0, 0, 0]))
                (entry style_std [1, 0, 0, 0]))
             (entry style_mean [1, 0, 0, 0]))"
proof -
  define t0 where "t0 = \<lparr>shape = [2, 1, 2, 1], entries = [1, 2, 3, 4 :: real]\<rparr>"
  have h: "shape t0 = 2 # [1, 2, 1]" "2 \<le> length [1, 2, 1 :: nat]" "even (2 :: nat)" "0 < (2 :: nat)"
    by (simp_all add: t0_def)
  have v: "valid_index (shape t0) [1, 0, 1, 0]" by (simp add: t0_def)
  obtain mean std style_mean style_std r where
    a: "calc_mean_std real_arith t0 (f_lit real_arith (1 / 100000)) = Inr (mean, std)"
       "shape mean = (shape t0)[length [1, 2, 1 :: nat] - 1 := 1]"
       "adain real_arith t0 = Inr r" "shape r = shape t0"
    and b: "\<forall>idx. valid_index (shape t0) idx \<longrightarrow>
               (let d = length [1, 2, 1 :: nat] - 1;
                    stat = idx[d := 0];
                    style = stat[0 := style_index 2 (idx ! 0)]
                in entry mean stat = f_mean real_arith (along_axis t0 d idx)
                 \<and> entry std stat =
                     f_sqrt real_arith (f_add real_arith (f_var real_arith (along_axis t0 d idx))
                        (f_lit real_arith (1 / 100000)))
                 \<and> entry style_mean stat = entry mean style
                 \<and> entry style_std stat = entry std style
                 \<and> entry r idx =
                     f_add real_arith
                       (f_mul real_arith
                          (f_div real_arith (f_sub real_arith (entry t0 idx) (entry mean stat))
                             (entry std stat))
                          (entry style_std stat))
                       (entry style_mean stat))"
    using adain_formula [OF h, of real_arith] by blast
  have c: "entry mean [1, 0, 0, 0] = f_mean real_arith (along_axis t0 2 [1, 0, 1, 0])"
      "entry style_mean [1, 0, 0, 0] = entry mean [1, 0, 0, 0]"
      "entry r [1, 0, 1, 0] =
           f_add real_arith
             (f_mul real_arith
                (f_div real_arith (f_sub real_arith (entry t0 [1, 0, 1, 0]) (entry mean [1, 0, 0, 0]))
                   (entry std [1, 0, 0, 0]))
                (entry style_std [1, 0, 0, 0]))
             (entry style_mean [1, 0, 0, 0])"
    using b [rule_format, OF v] by (simp_all add: Let_def style_index_def numeral_2_eq_2)
  have "shape mean = [2, 1, 1, 1]" "shape r = [2, 1, 2, 1]"
    using a(2,4) by (simp_all add: t0_def numeral_2_eq_2)
  then show ?thesis
    using a(1,3) c h unfolding t0_def by blast
qed

section \<open>Properties of the shared attention processor\<close>

text \<open>
  C6, as amended. Let \<open>q\<close>, \<open>k\<close> and \<open>v\<close> each have a batch of even size, not empty, and at
  least two more axes, and let \<open>k\<close> have four axes or the scale be 1. For every
  configuration the call applies \<open>adain\<close> to \<open>q\<close>, to \<open>k\<close> and to \<open>v\<close>, each only if its
  flag is set, without changing a shape. If \<open>share_attention\<close> is set, the key returned
  is, along the sequence axis, the key so far followed by its style tensor, in which
  batch slot \<open>i\<close> holds the slot 0 of the key so far for \<open>i < b div 2\<close> and its slot
  \<open>b div 2\<close> from there on, multiplied by the configured scale except in the slots 0 and
  \<open>b div 2\<close>; the value returned is the value so far followed by its style tensor, never
  scaled; both have twice the sequence length of the input. If \<open>share_attention\<close> is not
  set, key and value are returned as they are after \<open>adain\<close>, with the sequence length of
  the input. The query returned has the shape of \<open>q\<close> in both cases.
\<close>

theorem processor_call_result:
  assumes q: "shape q = bq # rq" "2 \<le> length rq" "even bq" "0 < bq"
    and k: "wf_tensor k" "shape k = bk # rk" "2 \<le> length rk" "even bk" "0 < bk"
    and ks: "length rk = 3 \<or> scale self = f_lit A 1"
    and v: "wf_tensor v" "shape v = bv # rv" "2 \<le> length rv" "even bv" "0 < bv"
  shows "\<exists>q1 k1 v1 k2 v2.
           (if adain_queries (args self) then adain A q else Inr q) = Inr q1
         \<and> (if adain_keys (args self) then adain A k else Inr k) = Inr k1
         \<and> (if adain_values (args self) then adain A v else Inr v) = Inr v1
         \<and> shape q1 = shape q \<and> shape k1 = shape k \<and> shape v1 = shape v
         \<and> processor_call A self q k v extra_options = Inr (q1, k2, v2)
         \<and> (if share_attention (args self)
              then shape k2 = (shape k)[length rk - 1 := 2 * (shape k ! (length rk - 1))]
                 \<and> shape v2 = (shape v)[length rv - 1 := 2 * (shape v ! (length rv - 1))]
                 \<and> slice_dim k2 (length rk - 1) 0 (Some (shape k ! (length rk - 1))) = Inr k1
                 \<and> slice_dim v2 (length rv - 1) 0 (Some (shape v ! (length rv - 1))) = Inr v1
                 \<and> (\<exists>sk sv.
                       slice_dim k2 (length rk - 1) (shape k ! (length rk - 1)) None = Inr sk
                     \<and> slice_dim v2 (length rv - 1) (shape v ! (length rv - 1)) None = Inr sv
                     \<and> (\<forall>i. i < bk \<longrightarrow>
                           (\<exists>x. select0 k1 (style_index bk i) = Inr x
                                \<and> select0 sk i =
                                    Inr (if scale self = f_lit A 1 \<or> i = 0 \<or> i = bk div 2
                                         then x else map_t (f_mul A (scale self)) x)))
                     \<and> (\<forall>i. i < bv \<longrightarrow> select0 sv i = select0 v1 (style_index bv i)))
              else k2 = k1 \<and> v2 = v1)"
proof -
  obtain q1 where q1: "(if adain_queries (args self) then adain A q else Inr q) = Inr q1"
      "shape q1 = shape q"
    using adain_result [OF q, of A] by (cases "adain_queries (args self)") auto
  obtain k1 where k1: "(if adain_keys (args self) then adain A k else Inr k) = Inr k1"
      "shape k1 = shape k" "wf_tensor k1"
    using adain_result [OF k(2-5), of A] k(1) by (cases "adain_keys (args self)") auto
  obtain v1 where v1: "(if adain_values (args self) then adain A v else Inr v) = Inr v1"
      "shape v1 = shape v" "wf_tensor v1"
    using adain_result [OF v(2-5), of A] v(1) by (cases "adain_values (args self)") auto
  show ?thesis
  proof (cases "share_attention (args self)")
    case True
    have shk: "shape k1 = bk # rk" using k1(2) k(2) by simp
    have shv: "shape v1 = bv # rv" using v1(2) v(2) by simp
    obtain k2 sk where k2: "concat_first A k1 (- 2) (scale self) = Inr k2"
        "shape k2 = (shape k1)[length rk - 1 := 2 * (shape k1 ! (length rk - 1))]"
        "slice_dim k2 (length rk - 1) 0 (Some (shape k1 ! (length rk - 1))) = Inr k1"
        "slice_dim k2 (length rk - 1) (shape k1 ! (length rk - 1)) None = Inr sk"
        "\<forall>i. i < bk \<longrightarrow>
                 (\<exists>x. select0 k1 (style_index bk i) = Inr x
                      \<and> select0 sk i =
                          Inr (if scale self = f_lit A 1 \<or> i = 0 \<or> i = bk div 2 then x
                               else map_t (f_mul A (scale self)) x))"
      using concat_first_halves [OF k1(3) shk k(4,5,3) ks] by blast
    obtain v2 sv where v2: "concat_first A v1 (- 2) (f_lit A 1) = Inr v2"
        "shape v2 = (shape v1)[length rv - 1 := 2 * (shape v1 ! (length rv - 1))]"
        "slice_dim v2 (length rv - 1) 0 (Some (shape v1 ! (length rv - 1))) = Inr v1"
        "slice_dim v2 (length rv - 1) (shape v1 ! (length rv - 1)) None = Inr sv"
        "\<forall>i. i < bv \<longrightarrow>
                 (\<exists>x. select0 v1 (style_index bv i) = Inr x
                      \<and> select0 sv i =
                          Inr (if f_lit A 1 = f_lit A 1 \<or> i = 0 \<or> i = bv div 2 then x
                               else map_t (f_mul A (f_lit A 1)) x))"
      using concat_first_halves [OF v1(3) shv v(4,5,3), of "f_lit A 1" A] by blast
    have sv: "\<forall>i. i < bv \<longrightarrow> select0 sv i = select0 v1 (style_index bv i)"
      using v2(5) by auto
    have "processor_call A self q k v extra_options = Inr (q1, k2, v2)"
      using True by (simp add: processor_call_def q1 k1 v1 k2 v2)
    moreover have "\<exists>sk sv.
                       slice_dim k2 (length rk - 1) (shape k ! (length rk - 1)) None = Inr sk
                     \<and> slice_dim v2 (length rv - 1) (shape v ! (length rv - 1)) None = Inr sv
                     \<and> (\<forall>i. i < bk \<longrightarrow>
                           (\<exists>x. select0 k1 (style_index bk i) = Inr x
                                \<and> select0 sk i =
                                    Inr (if scale self = f_lit A 1 \<or> i = 0 \<or> i = bk div 2
                                         then x else map_t (f_mul A (scale self)) x)))
                     \<and> (\<forall>i. i < bv \<longrightarrow> select0 sv i = select0 v1 (style_index bv i))"
      apply (rule exI [of _ sk], rule exI [of _ sv])
      using k2(4,5) v2(4) sv k1(2) v1(2) by simp
    ultimately show ?thesis
      apply (rule_tac x = q1 in exI, rule_tac x = k1 in exI, rule_tac x = v1 in exI,
          rule_tac x = k2 in exI, rule_tac x = v2 in exI)
      using True q1 k1(1,2) v1(1,2) k2(2,3) v2(2,3) by simp
  next
    case False
    have "processor_call A self q k v extra_options = Inr (q1, k1, v1)"
      using False by (simp add: processor_call_def q1 k1 v1)
    then show ?thesis using False q1 k1 v1 by auto
  qed
qed


theorem processor_call_result_witness:
  "wf_tensor \<lparr>shape = [4, 1, 2, 1], entries = [1, 2, 3, 4, 5, 6, 7, 8 :: real]\<rparr>
   \<and> shape \<lparr>shape = [4, 1, 2, 1], entries = [1, 2, 3, 4, 5, 6, 7, 8 :: real]\<rparr> = 4 # [1, 2, 1]
   \<and> 2 \<le> length [1, 2, 1 :: nat] \<and> even (4 :: nat) \<and> 0 < (4 :: nat)
   \<and> length [1, 2, 1 :: nat] = 3
   \<and> (\<exists>q1 k1 k2 v2 sk x.
         processor_call real_arith
           \<lparr>args = default_args real_arith, ref_img = None, scale = 1 / 2\<rparr>
           \<lparr>shape = [4, 1, 2, 1], entries = [1, 2, 3, 4, 5, 6, 7, 8]\<rparr>
           \<lparr>shape = [4, 1, 2, 1], entries = [1, 2, 3, 4, 5, 6, 7, 8]\<rparr>
           \<lparr>shape = [4, 1, 2, 1], entries = [1, 2, 3, 4, 5, 6, 7, 8]\<rparr> () = Inr (q1, k2, v2)
       \<and> adain real_arith \<lparr>shape = [4, 1, 2, 1], entries = [1, 2, 3, 4, 5, 6, 7, 8]\<rparr> = Inr k1
       \<and> shape q1 = [4, 1, 2, 1] \<and> shape k2 = [4, 1, 4, 1] \<and> shape v2 = [4, 1, 4, 1]
       \<and> slice_dim k2 2 0 (Some 2) = Inr k1
       \<and> slice_dim v2 2 0 (Some 2)
           = Inr \<lparr>shape = [4, 1, 2, 1], entries = [1, 2, 3, 4, 5, 6, 7, 8]\<rparr>
       \<and> slice_dim k2 2 2 None = Inr sk
       \<and> select0 k1 0 = Inr x
       \<and> select0 sk 0 = Inr x
       \<and> select0 sk 1 = Inr (map_t (f_mul real_arith (1 / 2)) x))"
proof -
  define t0 where "t0 = \<lparr>shape = [4, 1, 2, 1], entries = [1, 2, 3, 4, 5, 6, 7, 8 :: real]\<rparr>"
  define p0 where "p0 = \<lparr>args = default_args real_arith, ref_img = None, scale = 1 / 2 :: real\<rparr>"
  have w: "wf_tensor t0" by (simp add: t0_def wf_tensor_def)
  have h: "shape t0 = 4 # [1, 2, 1]" "2 \<le> length [1, 2, 1 :: nat]" "even (4 :: nat)"
      "0 < (4 :: nat)"
    by (simp_all add: t0_def)
  have ks: "length [1, 2, 1 :: nat] = 3 \<or> scale p0 = f_lit real_arith 1" by simp
  have fl: "adain_queries (args p0)" "adain_keys (args p0)" "\<not> adain_values (args p0)"
      "share_attention (args p0)" "scale p0 \<noteq> f_lit real_arith 1" "scale p0 = 1 / 2"
    by (simp_all add: p0_def default_args_def real_arith_def)
  obtain q1 k1 v1 k2 v2 sk where
    a: "adain real_arith t0 = Inr k1" "Inr t0 = (Inr v1 :: error + real tensor)"
       "shape q1 = shape t0"
       "processor_call real_arith p0 t0 t0 t0 () = Inr (q1, k2, v2)"
       "shape k2 = (shape t0)[length [1, 2, 1 :: nat] - 1 := 2 * (shape t0 ! (length [1, 2, 1 :: nat] - 1))]"
       "shape v2 = (shape t0)[length [1, 2, 1 :: nat] - 1 := 2 * (shape t0 ! (length [1, 2, 1 :: nat] - 1))]"
       "slice_dim k2 (length [1, 2, 1 :: nat] - 1) 0 (Some (shape t0 ! (length [1, 2, 1 :: nat] - 1))) = Inr k1"
       "slice_dim v2 (length [1, 2, 1 :: nat] - 1) 0 (Some (shape t0 ! (length [1, 2, 1 :: nat] - 1))) = Inr v1"
       "slice_dim k2 (length [1, 2, 1 :: nat] - 1) (shape t0 ! (length [1, 2, 1 :: nat] - 1)) None = Inr sk"
    and b: "\<forall>i. i < 4 \<longrightarrow>
              (\<exists>x. select0 k1 (style_index 4 i) = Inr x
                   \<and> select0 sk i =
                       Inr (if scale p0 = f_lit real_arith 1 \<or> i = 0 \<or> i = 4 div 2
                            then x else map_t (f_mul real_arith (scale p0)) x))"
    using processor_call_result [OF h w h ks w h, of "()"] fl(1-4) by auto
  obtain x where x: "select0 k1 0 = Inr x" "select0 sk 0 = Inr x"
    using b [rule_format, of 0] by (auto simp: style_index_def)
  have "select0 sk 1 = Inr (map_t (f_mul real_arith (1 / 2)) x)"
    using b [rule_format, of 1] x(1) fl(5,6) by (auto simp: style_index_def)
  moreover have "shape q1 = [4, 1, 2, 1]" "shape k2 = [4, 1, 4, 1]" "shape v2 = [4, 1, 4, 1]"
      "slice_dim k2 2 0 (Some 2) = Inr k1" "slice_dim v2 2 0 (Some 2) = Inr t0"
      "slice_dim k2 2 2 None = Inr sk"
  proof -
    have v1: "v1 = t0" using a(2) by simp
    have sh0: "shape t0 = [4, 1, 2, 1]" by (simp add: t0_def)
    have d: "length [1, 2, 1 :: nat] - 1 = 2" "shape t0 ! 2 = 2"
      by (simp_all add: sh0)
    show "shape q1 = [4, 1, 2, 1]" using a(3) by (simp add: sh0)
    show "shape k2 = [4, 1, 4, 1]" using a(5) unfolding d by (simp add: sh0 numeral_2_eq_2)
    show "shape v2 = [4, 1, 4, 1]" using a(6) unfolding d by (simp add: sh0 numeral_2_eq_2)
    show "slice_dim k2 2 0 (Some 2) = Inr k1" using a(7) unfolding d .
    show "slice_dim v2 2 0 (Some 2) = Inr t0" using a(8) unfolding d v1 .
    show "slice_dim k2 2 2 None = Inr sk" using a(9) unfolding d .
  qed
  ultimately have "processor_call real_arith p0 t0 t0 t0 () = Inr (q1, k2, v2)
       \<and> adain real_arith t0 = Inr k1
       \<and> shape q1 = [4, 1, 2, 1] \<and> shape k2 = [4, 1, 4, 1] \<and> shape v2 = [4, 1, 4, 1]
       \<and> slice_dim k2 2 0 (Some 2) = Inr k1
       \<and> slice_dim v2 2 0 (Some 2) = Inr t0
       \<and> slice_dim k2 2 2 None = Inr sk
       \<and> select0 k1 0 = Inr x
       \<and> select0 sk 0 = Inr x
       \<and> select0 sk 1 = Inr (map_t (f_mul real_arith (1 / 2)) x)"
    using a(1,4) x by simp
  then have "\<exists>q1 k1 k2 v2 sk x.
         processor_call real_arith p0 t0 t0 t0 () = Inr (q1, k2, v2)
       \<and> adain real_arith t0 = Inr k1
       \<and> shape q1 = [4, 1, 2, 1] \<and> shape k2 = [4, 1, 4, 1] \<and> shape v2 = [4, 1, 4, 1]
       \<and> slice_dim k2 2 0 (Some 2) = Inr k1
       \<and> slice_dim v2 2 0 (Some 2) = Inr t0
       \<and> slice_dim k2 2 2 None = Inr sk
       \<and> select0 k1 0 = Inr x
       \<and> select0 sk 0 = Inr x
       \<and> select0 sk 1 = Inr (map_t (f_mul real_arith (1 / 2)) x)"
    by blast
  then show ?thesis using w h unfolding t0_def p0_def by simp
qed

text \<open>
  C6 as stated has the key and the value doubled for every configuration. With
  \<open>share_attention\<close> off (and no \<open>adain\<close>) the call returns its arguments: the sequence
  length of the key, 2, is not doubled.
\<close>

theorem processor_call_counterexample:
  "processor_call real_arith
     \<lparr>args = \<lparr>share_attention = False, adain_queries = False, adain_keys = False,
              adain_values = False, shared_score_shift = 0, only_self_level = 0\<rparr>,
      ref_img = None, scale = 1\<rparr>
     \<lparr>shape = [2, 1, 2, 1], entries = [1, 2, 3, 4 :: real]\<rparr>
     \<lparr>shape = [2, 1, 2, 1], entries = [1, 2, 3, 4]\<rparr>
     \<lparr>shape = [2, 1, 2, 1], entries = [1, 2, 3, 4]\<rparr> ()
   = Inr (\<lparr>shape = [2, 1, 2, 1], entries = [1, 2, 3, 4]\<rparr>,
          \<lparr>shape = [2, 1, 2, 1], entries = [1, 2, 3, 4]\<rparr>,
          \<lparr>shape = [2, 1, 2, 1], entries = [1, 2, 3, 4]\<rparr>)
   \<and> shape \<lparr>shape = [2, 1, 2, 1], entries = [1, 2, 3, 4 :: real]\<rparr> ! 2
       \<noteq> 2 * (shape \<lparr>shape = [2, 1, 2, 1], entries = [1, 2, 3, 4 :: real]\<rparr> ! 2)"
  by (simp add: processor_call_def)

text \<open>
  C9. Two configurations that differ at most in \<open>shared_score_shift\<close> and
  \<open>only_self_level\<close> give the same result, an error included, on every input: whatever
  values \<open>x\<close> and \<open>y\<close> the two fields are set to, the call returns what it returned
  before.
\<close>

theorem processor_call_ignores_float_fields:
  "processor_call A
     (self\<lparr>args := (args self)\<lparr>shared_score_shift := x, only_self_level := y\<rparr>\<rparr>)
     q k v extra_options
   = processor_call A self q k v extra_options"
  by (simp add: processor_call_def)

section \<open>Properties of the attention dispatch\<close>

lemma sdpa_None: "sdpa A q k v None heads = Inr (Optimized_attention q k v heads)"
  by (simp add: sdpa_def truth_value_def)

lemma sdpa_Some:
  "sdpa A q k v (Some m) heads =
     (if prod_list (shape m) = 1
      then (if f_nonzero A (hd (entries m)) then Inr (Optimized_attention_masked q k v heads m)
            else Inr (Optimized_attention q k v heads))
      else Inl RuntimeError)"
  by (simp add: sdpa_def truth_value_def tensor_bool_def)

text \<open>
  C1. The claim has every mask that is present routed to the masked kernel. The code
  tests the truth value of the mask: a mask of one entry that is zero goes to the
  unmasked kernel, as an absent mask does, and an empty mask raises, since torch gives a
  tensor without entries no truth value.
\<close>

theorem sdpa_falsy_mask:
  "sdpa real_arith \<lparr>shape = [2, 1, 1], entries = [1, 2]\<rparr> \<lparr>shape = [2, 1, 1], entries = [1, 2]\<rparr>
     \<lparr>shape = [2, 1, 1], entries = [1, 2]\<rparr> (Some \<lparr>shape = [1, 1], entries = [0]\<rparr>) 8
   = Inr (Optimized_attention \<lparr>shape = [2, 1, 1], entries = [1, 2]\<rparr>
            \<lparr>shape = [2, 1, 1], entries = [1, 2]\<rparr> \<lparr>shape = [2, 1, 1], entries = [1, 2]\<rparr> 8)
   \<and> sdpa real_arith \<lparr>shape = [2, 1, 1], entries = [1, 2]\<rparr> \<lparr>shape = [2, 1, 1], entries = [1, 2]\<rparr>
     \<lparr>shape = [2, 1, 1], entries = [1, 2]\<rparr> (Some \<lparr>shape = [0], entries = []\<rparr>) 8
   = Inl RuntimeError"
  by (simp add: sdpa_def truth_value_def tensor_bool_def real_arith_def)

section \<open>Properties of the walker\<close>

text \<open>
  C7. For every module tree and every registry the walker appends exactly the nodes
  \<open>recorded_groups\<close> and \<open>recorded_layers\<close> name. At a group norm with group sharing
  on it records the node and does not go into its children: the result is the registry
  with this node added, whatever lies below, so no layer norm below it is recorded. At a
  layer norm it records the node when layer sharing is on and goes on through the
  children; at a group norm with group sharing off, and at any other module, it records
  nothing and goes on through the children.
\<close>

theorem get_norm_layers_branches:
  "get_norm_layers m nl sl sg =
     \<lparr>group_norms = group_norms nl @ recorded_groups sg m,
      layer_norms = layer_norms nl @ recorded_layers sl sg m\<rparr>
   \<and> get_norm_layers (Module a GroupNorm cs) nl sl True =
       nl\<lparr>group_norms := group_norms nl @ [a]\<rparr>
   \<and> get_norm_layers (Module a LayerNorm cs) nl sl sg =
       fold (\<lambda>c acc. get_norm_layers c acc sl sg) cs
         (if sl then nl\<lparr>layer_norms := layer_norms nl @ [a]\<rparr> else nl)
   \<and> get_norm_layers (Module a GroupNorm cs) nl sl False =
       fold (\<lambda>c acc. get_norm_layers c acc sl False) cs nl
   \<and> get_norm_layers (Module a OtherLayer cs) nl sl sg =
       fold (\<lambda>c acc. get_norm_layers c acc sl sg) cs nl"
  using get_norm_layers_recorded [of m nl sl sg] by simp

theorem get_norm_layers_branches_witness:
  "get_norm_layers
     (Module 0 OtherLayer [Module 1 GroupNorm [Module 2 LayerNorm []], Module 3 LayerNorm []])
     \<lparr>group_norms = [], layer_norms = []\<rparr> True True
   = \<lparr>group_norms = [1], layer_norms = [3]\<rparr>"
  using get_norm_layers_branches
    [of "Module 0 OtherLayer [Module 1 GroupNorm [Module 2 LayerNorm []], Module 3 LayerNorm []]"
        "\<lparr>group_norms = [], layer_norms = []\<rparr>" True True, THEN conjunct1]
  by (simp del: get_norm_layers.simps)

section \<open>Properties of the shared normalization wrapper\<close>

text \<open>
  C8. Wrapping a layer twice is wrapping it once: for a layer not yet wrapped, the second
  call finds \<open>orig_forward\<close> set and leaves it, so the one cached forward is the forward
  the layer had before the first wrap, and the installed forward delegates to it, never to
  the wrapper. For an input \<open>x\<close> with a batch of even size \<open>b > 0\<close> and a sequence axis
  (at least two axes) of extent \<open>n\<close>, the installed forward widens \<open>x\<close> with
  \<open>concat_first\<close> to extent \<open>2n\<close>, applies the cached forward, and keeps the first \<open>n\<close>
  entries along the sequence axis; when the cached forward returns a tensor of the shape
  of its argument, as a normalization does, the result has the shape of \<open>x\<close>.
\<close>

theorem register_norm_forward_idempotent:
  assumes fresh: "orig_forward l = None"
    and x: "shape x = b # rest" "1 \<le> length rest" "even b" "0 < b"
  shows "register_norm_forward A (register_norm_forward A l) = register_norm_forward A l
       \<and> orig_forward (register_norm_forward A l) = Some (forward l)
       \<and> orig_forward (register_norm_forward A (register_norm_forward A l)) = Some (forward l)
       \<and> (\<exists>w. concat_first A x (- 2) (f_lit A 1) = Inr w
             \<and> shape w = (shape x)[length rest - 1 := 2 * (shape x ! (length rest - 1))]
             \<and> forward (register_norm_forward A (register_norm_forward A l)) x =
                 bnd (forward l w) (\<lambda>result.
                 bnd (norm_dim (length (shape result)) (- 2)) (\<lambda>d'.
                 slice_dim result d' 0 (Some (shape x ! (length rest - 1)))))
             \<and> (\<forall>y. forward l w = Inr y \<and> shape y = shape w \<longrightarrow>
                   (\<exists>r. forward (register_norm_forward A (register_norm_forward A l)) x = Inr r
                        \<and> shape r = shape x)))"
proof -
  have f: "forward (register_norm_forward A (register_norm_forward A l))
             = forward_wrapped A (forward l)"
    using fresh by (simp add: register_norm_forward_def Let_def)
  have o: "orig_forward (register_norm_forward A l) = Some (forward l)"
    using fresh by (simp add: register_norm_forward_def Let_def)
  show ?thesis
    using forward_wrapped_shape [OF x, of A "forward l"]
    by (simp add: register_norm_forward_twice f [unfolded register_norm_forward_twice] o)
qed


theorem register_norm_forward_idempotent_witness:
  "orig_forward \<lparr>forward = Inr, orig_forward = None\<rparr> = None
   \<and> shape \<lparr>shape = [2, 1, 2, 1], entries = [1, 2, 3, 4 :: real]\<rparr> = 2 # [1, 2, 1]
   \<and> 1 \<le> length [1, 2, 1 :: nat] \<and> even (2 :: nat) \<and> 0 < (2 :: nat)
   \<and> register_norm_forward real_arith
         (register_norm_forward real_arith \<lparr>forward = Inr, orig_forward = None\<rparr>)
       = register_norm_forward real_arith \<lparr>forward = Inr, orig_forward = None\<rparr>
   \<and> orig_forward (register_norm_forward real_arith
         (register_norm_forward real_arith \<lparr>forward = Inr, orig_forward = None\<rparr>))
       = Some Inr
   \<and> (\<exists>w r. concat_first real_arith \<lparr>shape = [2, 1, 2, 1], entries = [1, 2, 3, 4]\<rparr> (- 2)
                 (f_lit real_arith 1) = Inr w
          \<and> shape w = [2, 1, 4, 1]
          \<and> forward (register_norm_forward real_arith
                (register_norm_forward real_arith \<lparr>forward = Inr, orig_forward = None\<rparr>))
                \<lparr>shape = [2, 1, 2, 1], entries = [1, 2, 3, 4]\<rparr> = Inr r
          \<and> shape r = [2, 1, 2, 1])"
proof -
  define l0 :: "real norm_layer" where "l0 = \<lparr>forward = Inr, orig_forward = None\<rparr>"
  define t0 where "t0 = \<lparr>shape = [2, 1, 2, 1], entries = [1, 2, 3, 4 :: real]\<rparr>"
  have h: "orig_forward l0 = None" "shape t0 = 2 # [1, 2, 1]" "1 \<le> length [1, 2, 1 :: nat]"
      "even (2 :: nat)" "0 < (2 :: nat)"
    by (simp_all add: l0_def t0_def)
  obtain w where
    w: "register_norm_forward real_arith (register_norm_forward real_arith l0)
          = register_norm_forward real_arith l0"
       "orig_forward (register_norm_forward real_arith (register_norm_forward real_arith l0))
          = Some (forward l0)"
       "concat_first real_arith t0 (- 2) (f_lit real_arith 1) = Inr w"
       "shape w = (shape t0)[length [1, 2, 1 :: nat] - 1 := 2 * (shape t0 ! (length [1, 2, 1 :: nat] - 1))]"
       "\<forall>y. forward l0 w = Inr y \<and> shape y = shape w \<longrightarrow>
            (\<exists>r. forward (register_norm_forward real_arith (register_norm_forward real_arith l0)) t0
                    = Inr r \<and> shape r = shape t0)"
    using register_norm_forward_idempotent [OF h, of real_arith] by blast
  have "forward l0 w = Inr w \<and> shape w = shape w" by (simp add: l0_def)
  then obtain r where
    r: "forward (register_norm_forward real_arith (register_norm_forward real_arith l0)) t0 = Inr r"
       "shape r = shape t0"
    using w(5) by blast
  have "shape w = [2, 1, 4, 1]" "shape r = [2, 1, 2, 1]" "forward l0 = Inr"
    using w(4) r(2) by (simp_all add: t0_def l0_def numeral_2_eq_2)
  then show ?thesis
    using h w(1,2,3) r(1) unfolding l0_def t0_def by auto
qed

section \<open>Properties of patching\<close>

text \<open>
  C10. Whatever the host's \<open>clone\<close> returns, \<open>patch\<close> installs the wrapper on exactly the
  layers the walker collects from the layer tree of the patcher passed in, with the
  sharing the argument \<open>share_norm\<close> selects: each of them gets \<open>forward_wrapped\<close> over its
  cached original forward as its forward. These layers are modules of that tree, and
  every other layer is left as it was: the walk starts from the argument, not from the
  clone. The patcher passed in keeps its attention patches, and the patcher returned is
  the clone with the shared attention processor appended to its attention patches.
\<close>

theorem patch_effects:
  "patch A clone self_args store model_arg share_norm sc style_image =
     ((\<lambda>a. if a \<in> set (group_norms
                         (get_norm_layers (model model_arg) \<lparr>group_norms = [], layer_norms = []\<rparr>
                            (share_norm \<in> set [''layer'', ''both''])
                            (share_norm \<in> set [''group'', ''both''])))
              \<or> a \<in> set (layer_norms
                         (get_norm_layers (model model_arg) \<lparr>group_norms = [], layer_norms = []\<rparr>
                            (share_norm \<in> set [''layer'', ''both''])
                            (share_norm \<in> set [''group'', ''both''])))
           then (store a)\<lparr>orig_forward :=
                              Some (case orig_forward (store a) of
                                      None \<Rightarrow> forward (store a) | Some f \<Rightarrow> f),
                            forward :=
                              forward_wrapped A (case orig_forward (store a) of
                                                   None \<Rightarrow> forward (store a) | Some f \<Rightarrow> f)\<rparr>
           else store a),
      model_arg,
      (clone model_arg)\<lparr>attn1_patch := attn1_patch (clone model_arg)
          @ [\<lparr>args = self_args, ref_img = style_image, scale = sc\<rparr>]\<rparr>)
   \<and> set (group_norms
             (get_norm_layers (model model_arg) \<lparr>group_norms = [], layer_norms = []\<rparr>
                (share_norm \<in> set [''layer'', ''both''])
                (share_norm \<in> set [''group'', ''both''])))
       \<union> set (layer_norms
             (get_norm_layers (model model_arg) \<lparr>group_norms = [], layer_norms = []\<rparr>
                (share_norm \<in> set [''layer'', ''both''])
                (share_norm \<in> set [''group'', ''both''])))
       \<subseteq> set (addresses (model model_arg))"
proof -
  define nl where "nl = get_norm_layers (model model_arg) \<lparr>group_norms = [], layer_norms = []\<rparr>
                (share_norm \<in> set [''layer'', ''both''])
                (share_norm \<in> set [''group'', ''both''])"
  have sub: "set (group_norms nl) \<union> set (layer_norms nl) \<subseteq> set (addresses (model model_arg))"
    unfolding nl_def
    using get_norm_layers_subset [of "model model_arg" "\<lparr>group_norms = [], layer_norms = []\<rparr>"]
    by auto
  have st: "fst (patch A clone self_args store model_arg share_norm sc style_image)
          = (\<lambda>a. if a \<in> set (group_norms nl) \<or> a \<in> set (layer_norms nl)
                  then register_norm_forward A (store a) else store a)"
    by (simp add: patch_def register_shared_norm_def Let_def fold_register nl_def)
  have rest: "snd (patch A clone self_args store model_arg share_norm sc style_image)
          = (model_arg, (clone model_arg)\<lparr>attn1_patch := attn1_patch (clone model_arg)
                @ [\<lparr>args = self_args, ref_img = style_image, scale = sc\<rparr>]\<rparr>)"
    by (simp add: patch_def Let_def set_model_attn1_patch_def)
  have "patch A clone self_args store model_arg share_norm sc style_image
          = ((\<lambda>a. if a \<in> set (group_norms nl) \<or> a \<in> set (layer_norms nl)
                  then register_norm_forward A (store a) else store a),
             model_arg, (clone model_arg)\<lparr>attn1_patch := attn1_patch (clone model_arg)
                @ [\<lparr>args = self_args, ref_img = style_image, scale = sc\<rparr>]\<rparr>)"
    using st rest by (simp add: prod_eq_iff)
  then show ?thesis
    using sub unfolding nl_def [symmetric]
    by (simp add: register_norm_forward_def Let_def cong: if_cong)
qed


theorem patch_effects_witness:
  "orig_forward (fst (patch real_arith (\<lambda>p. p) (default_args real_arith)
        (\<lambda>a. \<lparr>forward = Inr, orig_forward = None\<rparr>)
        \<lparr>model = Module 0 OtherLayer
                   [Module 1 GroupNorm [Module 2 LayerNorm []], Module 3 LayerNorm []],
         attn1_patch = []\<rparr> ''both'' 1 None) 1) = Some Inr
   \<and> forward (fst (patch real_arith (\<lambda>p. p) (default_args real_arith)
        (\<lambda>a. \<lparr>forward = Inr, orig_forward = None\<rparr>)
        \<lparr>model = Module 0 OtherLayer
                   [Module 1 GroupNorm [Module 2 LayerNorm []], Module 3 LayerNorm []],
         attn1_patch = []\<rparr> ''both'' 1 None) 3) = forward_wrapped real_arith Inr
   \<and> fst (patch real_arith (\<lambda>p. p) (default_args real_arith)
        (\<lambda>a. \<lparr>forward = Inr, orig_forward = None\<rparr>)
        \<lparr>model = Module 0 OtherLayer
                   [Module 1 GroupNorm [Module 2 LayerNorm []], Module 3 LayerNorm []],
         attn1_patch = []\<rparr> ''both'' 1 None) 2 = \<lparr>forward = Inr, orig_forward = None\<rparr>
   \<and> attn1_patch (fst (snd (patch real_arith (\<lambda>p. p) (default_args real_arith)
        (\<lambda>a. \<lparr>forward = Inr, orig_forward = None\<rparr>)
        \<lparr>model = Module 0 OtherLayer
                   [Module 1 GroupNorm [Module 2 LayerNorm []], Module 3 LayerNorm []],
         attn1_patch = []\<rparr> ''both'' 1 None))) = []
   \<and> attn1_patch (snd (snd (patch real_arith (\<lambda>p. p) (default_args real_arith)
        (\<lambda>a. \<lparr>forward = Inr, orig_forward = None\<rparr>)
        \<lparr>model = Module 0 OtherLayer
                   [Module 1 GroupNorm [Module 2 LayerNorm []], Module 3 LayerNorm []],
         attn1_patch = []\<rparr> ''both'' 1 None)))
       = [\<lparr>args = default_args real_arith, ref_img = None, scale = 1\<rparr>]"
  using patch_effects [of real_arith "\<lambda>p. p" "default_args real_arith"
      "\<lambda>a. \<lparr>forward = Inr, orig_forward = None\<rparr>"
      "\<lparr>model = Module 0 OtherLayer
                   [Module 1 GroupNorm [Module 2 LayerNorm []], Module 3 LayerNorm []],
         attn1_patch = []\<rparr>" "''both''" 1 None, THEN conjunct1]
  by simp

end
